theory Spec2Isabelle
  imports Complex_Main
begin

section \<open>JavaScript collections\<close>

text \<open>
  A JavaScript \<^verbatim>\<open>Set\<close> iterates in insertion order and ignores the insertion of an
  element it already holds.  It is modelled as the list of its elements in iteration
  order; \<^verbatim>\<open>new Set(xs)\<close> inserts the elements of \<open>xs\<close> from left to right and
  \<^verbatim>\<open>Array.from(s)\<close> is the list itself.
\<close>

definition set_add :: "'a \<Rightarrow> 'a list \<Rightarrow> 'a list" where
  "set_add x s = (if x \<in> set s then s else s @ [x])"

definition new_Set :: "'a list \<Rightarrow> 'a list" where
  "new_Set xs = fold set_add xs []"

definition has :: "'a list \<Rightarrow> 'a \<Rightarrow> bool" where
  "has s x = (x \<in> set s)"

text \<open>
  A JavaScript \<^verbatim>\<open>Map\<close> is an association list in insertion order: \<^verbatim>\<open>set\<close> on a
  key that is present replaces the value in place, on a new key it appends.  Mutating an
  object obtained by \<^verbatim>\<open>get\<close> is a \<^verbatim>\<open>set\<close> on its key.
\<close>

fun map_set :: "'k \<Rightarrow> 'v \<Rightarrow> ('k \<times> 'v) list \<Rightarrow> ('k \<times> 'v) list" where
  "map_set k v [] = [(k, v)]"
| "map_set k v ((k', v') # m) =
     (if k' = k then (k, v) # m else (k', v') # map_set k v m)"

definition map_get :: "('k \<times> 'v) list \<Rightarrow> 'k \<Rightarrow> 'v option" where
  "map_get m k = map_of m k"

definition map_values :: "('k \<times> 'v) list \<Rightarrow> 'v list" where
  "map_values m = map snd m"

text \<open>\<^verbatim>\<open>xs.find(p)\<close>: the first element satisfying \<open>p\<close>, or \<^verbatim>\<open>undefined\<close>.\<close>

fun find_first :: "('a \<Rightarrow> bool) \<Rightarrow> 'a list \<Rightarrow> 'a option" where
  "find_first p [] = None"
| "find_first p (x # xs) = (if p x then Some x else find_first p xs)"

text \<open>\<^verbatim>\<open>s || d\<close> on strings: the empty string is falsy.\<close>

definition str_or :: "string \<Rightarrow> string \<Rightarrow> string" where
  "str_or s d = (if s = [] then d else s)"

section \<open>SupabaseService.syncFollowers\<close>

record ig_user =
  ig_id :: string
  username :: string
  full_name :: "string option"
  is_private :: bool
  is_verified :: bool
  profile_pic_url :: "string option"

text \<open>The value type of \<^verbatim>\<open>allUsersMap\<close>: the scraped user and the three flags.\<close>

record merged_user =
  user :: ig_user
  is_follower :: bool
  is_following :: bool
  is_following_back :: bool

text \<open>
  A row of table \<^verbatim>\<open>followers\<close> as the first query selects it
  (\<^verbatim>\<open>follower_ig_id, follower_username, is_follower, is_following\<close>).
\<close>

record follower_row =
  follower_ig_id :: string
  follower_username :: string
  row_is_follower :: bool
  row_is_following :: bool

datatype change_type = NEW_FOLLOWER | UNFOLLOWED | STARTED_FOLLOWING | STOPPED_FOLLOWING

record follower_change =
  change_profile_id :: string
  change_user_id :: string
  change_ig_id :: string
  change_username :: string
  change_type :: change_type

record followers_upsert_row =
  up_profile_id :: string
  up_user_id :: string
  up_follower_ig_id :: string
  up_follower_username :: string
  up_follower_name :: "string option"
  up_follower_pic_url :: "string option"
  up_is_verified :: bool
  up_is_private :: bool
  up_is_follower :: bool
  up_is_following :: bool
  up_is_following_back :: bool
  up_updated_at :: int

record followers_snapshot =
  snap_profile_id :: string
  snap_user_id :: string
  total_followers :: nat
  total_following :: nat
  new_followers :: nat
  lost_followers :: nat
  non_followers :: nat
  snap_follower_ids :: "string list"
  snap_following_ids :: "string list"

text \<open>
  \<^verbatim>\<open>currentFollowers\<close> is \<^verbatim>\<open>null\<close> when the select fails (the error is only
  logged); \<^verbatim>\<open>currentFollowers?.filter(...).map(...) || []\<close> is then the empty list.
\<close>

definition currentFollowerIds :: "follower_row list option \<Rightarrow> string list" where
  "currentFollowerIds currentFollowers =
     new_Set (case currentFollowers of None \<Rightarrow> []
              | Some rows \<Rightarrow> map follower_ig_id (filter row_is_follower rows))"

definition currentFollowingIds :: "follower_row list option \<Rightarrow> string list" where
  "currentFollowingIds currentFollowers =
     new_Set (case currentFollowers of None \<Rightarrow> []
              | Some rows \<Rightarrow> map follower_ig_id (filter row_is_following rows))"

definition newFollowerIds :: "ig_user list \<Rightarrow> string list" where
  "newFollowerIds followersData = new_Set (map ig_id followersData)"

definition newFollowingIds :: "ig_user list \<Rightarrow> string list" where
  "newFollowingIds followingData = new_Set (map ig_id followingData)"

text \<open>The body of \<^verbatim>\<open>followersData.forEach\<close>.\<close>

definition add_follower :: "string list \<Rightarrow> ig_user \<Rightarrow> (string \<times> merged_user) list
    \<Rightarrow> (string \<times> merged_user) list" where
  "add_follower followingIds follower m =
     map_set (ig_id follower)
       \<lparr>user = follower, is_follower = True,
        is_following = has followingIds (ig_id follower),
        is_following_back = has followingIds (ig_id follower)\<rparr> m"

text \<open>The body of \<^verbatim>\<open>followingData.forEach\<close>.\<close>

definition add_following :: "ig_user \<Rightarrow> (string \<times> merged_user) list
    \<Rightarrow> (string \<times> merged_user) list" where
  "add_following following m =
     (case map_get m (ig_id following) of
        Some existing \<Rightarrow>
          map_set (ig_id following)
            (existing\<lparr>is_following := True, is_following_back := True\<rparr>) m
      | None \<Rightarrow>
          map_set (ig_id following)
            \<lparr>user = following, is_follower = False, is_following = True,
             is_following_back = False\<rparr> m)"

definition allUsersMap :: "ig_user list \<Rightarrow> ig_user list \<Rightarrow> (string \<times> merged_user) list" where
  "allUsersMap followersData followingData =
     fold add_following followingData
       (fold (add_follower (newFollowingIds followingData)) followersData [])"

definition followersToUpsert :: "string \<Rightarrow> string \<Rightarrow> int \<Rightarrow> ig_user list \<Rightarrow> ig_user list
    \<Rightarrow> followers_upsert_row list" where
  "followersToUpsert profileId userId now followersData followingData =
     map (\<lambda>u. \<lparr>up_profile_id = profileId, up_user_id = userId,
                up_follower_ig_id = ig_id (user u),
                up_follower_username = username (user u),
                up_follower_name = full_name (user u),
                up_follower_pic_url = profile_pic_url (user u),
                up_is_verified = is_verified (user u),
                up_is_private = is_private (user u),
                up_is_follower = is_follower u,
                up_is_following = is_following u,
                up_is_following_back = is_following_back u,
                up_updated_at = now\<rparr>)
       (map_values (allUsersMap followersData followingData))"

definition newFollowersList :: "follower_row list option \<Rightarrow> ig_user list \<Rightarrow> string list" where
  "newFollowersList currentFollowers followersData =
     filter (\<lambda>i. \<not> has (currentFollowerIds currentFollowers) i) (newFollowerIds followersData)"

definition lostFollowersList :: "follower_row list option \<Rightarrow> ig_user list \<Rightarrow> string list" where
  "lostFollowersList currentFollowers followersData =
     filter (\<lambda>i. \<not> has (newFollowerIds followersData) i) (currentFollowerIds currentFollowers)"

definition newFollowingList :: "follower_row list option \<Rightarrow> ig_user list \<Rightarrow> string list" where
  "newFollowingList currentFollowers followingData =
     filter (\<lambda>i. \<not> has (currentFollowingIds currentFollowers) i) (newFollowingIds followingData)"

definition stoppedFollowingList :: "follower_row list option \<Rightarrow> ig_user list \<Rightarrow> string list" where
  "stoppedFollowingList currentFollowers followingData =
     filter (\<lambda>i. \<not> has (newFollowingIds followingData) i) (currentFollowingIds currentFollowers)"

text \<open>
  The four \<^verbatim>\<open>forEach\<close> loops that fill \<^verbatim>\<open>changes\<close>.  An id whose lookup yields
  \<^verbatim>\<open>undefined\<close> pushes nothing.
\<close>

definition change_from_map :: "string \<Rightarrow> string \<Rightarrow> (string \<times> merged_user) list \<Rightarrow> change_type
    \<Rightarrow> string \<Rightarrow> follower_change list" where
  "change_from_map profileId userId m ct igId =
     (case map_get m igId of
        Some u \<Rightarrow> [\<lparr>change_profile_id = profileId, change_user_id = userId,
                    change_ig_id = igId, change_username = username (user u),
                    change_type = ct\<rparr>]
      | None \<Rightarrow> [])"

definition change_from_rows :: "string \<Rightarrow> string \<Rightarrow> follower_row list option \<Rightarrow> change_type
    \<Rightarrow> string \<Rightarrow> follower_change list" where
  "change_from_rows profileId userId currentFollowers ct igId =
     (case (case currentFollowers of None \<Rightarrow> None
            | Some rows \<Rightarrow> find_first (\<lambda>f. follower_ig_id f = igId) rows) of
        Some existing \<Rightarrow> [\<lparr>change_profile_id = profileId, change_user_id = userId,
                          change_ig_id = igId,
                          change_username = str_or (follower_username existing) igId,
                          change_type = ct\<rparr>]
      | None \<Rightarrow> [])"

definition changes :: "string \<Rightarrow> string \<Rightarrow> follower_row list option \<Rightarrow> ig_user list
    \<Rightarrow> ig_user list \<Rightarrow> follower_change list" where
  "changes profileId userId currentFollowers followersData followingData =
     concat (map (change_from_map profileId userId (allUsersMap followersData followingData)
                    NEW_FOLLOWER)
               (newFollowersList currentFollowers followersData))
     @ concat (map (change_from_rows profileId userId currentFollowers UNFOLLOWED)
                 (lostFollowersList currentFollowers followersData))
     @ concat (map (change_from_map profileId userId (allUsersMap followersData followingData)
                      STARTED_FOLLOWING)
                 (newFollowingList currentFollowers followingData))
     @ concat (map (change_from_rows profileId userId currentFollowers STOPPED_FOLLOWING)
                 (stoppedFollowingList currentFollowers followingData))"

definition nonFollowersCount :: "ig_user list \<Rightarrow> ig_user list \<Rightarrow> nat" where
  "nonFollowersCount followersData followingData =
     length (filter (\<lambda>u. is_following u \<and> \<not> is_follower u)
               (map_values (allUsersMap followersData followingData)))"

definition snapshot :: "string \<Rightarrow> string \<Rightarrow> follower_row list option \<Rightarrow> ig_user list
    \<Rightarrow> ig_user list \<Rightarrow> followers_snapshot" where
  "snapshot profileId userId currentFollowers followersData followingData =
     \<lparr>snap_profile_id = profileId, snap_user_id = userId,
      total_followers = length followersData,
      total_following = length followingData,
      new_followers = length (newFollowersList currentFollowers followersData),
      lost_followers = length (lostFollowersList currentFollowers followersData),
      non_followers = nonFollowersCount followersData followingData,
      snap_follower_ids = newFollowerIds followersData,
      snap_following_ids = newFollowingIds followingData\<rparr>"

text \<open>
  The batch loop \<^verbatim>\<open>for (i = 0; i < rows.length; i += BATCH_SIZE)\<close>.  The record store
  answers the upsert of the batch starting at index \<open>i\<close> with \<open>upsertError i\<close>;
  an error throws, leaving the batches written so far in the table.
\<close>

definition BATCH_SIZE :: nat where
  "BATCH_SIZE = 1000"

function upsert_batches :: "(nat \<Rightarrow> string option) \<Rightarrow> nat \<Rightarrow> 'r list \<Rightarrow> 'r list
    \<Rightarrow> 'r list \<times> string option" where
  "upsert_batches upsertError i rows written =
     (if i < length rows then
        (case upsertError i of
           Some msg \<Rightarrow> (written, Some (''Failed to upsert followers: '' @ msg))
         | None \<Rightarrow>
             upsert_batches upsertError (i + BATCH_SIZE) rows
               (written @ take BATCH_SIZE (drop i rows)))
      else (written, None))"
  by pat_completeness auto
termination
  by (relation "measure (\<lambda>(e, i, rows, w). length rows - i)") (auto simp: BATCH_SIZE_def)

declare upsert_batches.simps [simp del]

text \<open>
  What one call of \<^verbatim>\<open>syncFollowers\<close> does to the record store and what it returns:
  the rows written to \<^verbatim>\<open>followers\<close>, the batch passed to the insert into
  \<^verbatim>\<open>follower_changes\<close>, the row passed to the insert into
  \<^verbatim>\<open>followers_snapshots\<close>, and the returned count or the thrown error.  Errors of the
  two inserts are only logged: they change neither what is passed nor what is returned.
\<close>

record sync_outcome =
  followers_written :: "followers_upsert_row list"
  changes_inserted :: "follower_change list"
  snapshot_inserted :: "followers_snapshot option"
  sync_result :: "string + nat"

definition syncFollowers :: "follower_row list option \<Rightarrow> (nat \<Rightarrow> string option) \<Rightarrow> int
    \<Rightarrow> string \<Rightarrow> string \<Rightarrow> ig_user list \<Rightarrow> ig_user list \<Rightarrow> sync_outcome" where
  "syncFollowers currentFollowers upsertError now profileId userId followersData followingData =
     (case upsert_batches upsertError 0
             (followersToUpsert profileId userId now followersData followingData) [] of
        (written, Some msg) \<Rightarrow>
          \<lparr>followers_written = written, changes_inserted = [],
           snapshot_inserted = None, sync_result = Inl msg\<rparr>
      | (written, None) \<Rightarrow>
          \<lparr>followers_written = written,
           changes_inserted =
             changes profileId userId currentFollowers followersData followingData,
           snapshot_inserted =
             Some (snapshot profileId userId currentFollowers followersData followingData),
           sync_result =
             Inr (length (followersToUpsert profileId userId now followersData followingData))\<rparr>)"

text \<open>The number of change events recorded for id \<open>i\<close> with type \<open>t\<close>.\<close>

definition ev_count :: "string \<Rightarrow> change_type \<Rightarrow> follower_change list \<Rightarrow> nat" where
  "ev_count i t cs = length (filter (\<lambda>c. change_ig_id c = i \<and> change_type c = t) cs)"

text \<open>The example of the specification: users named by their ids.\<close>

definition example_user :: "string \<Rightarrow> ig_user" where
  "example_user i = \<lparr>ig_id = i, username = i, full_name = None, is_private = False,
     is_verified = False, profile_pic_url = None\<rparr>"

definition example_row :: "string \<Rightarrow> bool \<Rightarrow> bool \<Rightarrow> follower_row" where
  "example_row i f g = \<lparr>follower_ig_id = i, follower_username = i, row_is_follower = f,
     row_is_following = g\<rparr>"

definition example_previous :: "follower_row list option" where
  "example_previous = Some [example_row ''A'' True False, example_row ''B'' True True,
     example_row ''C'' True True, example_row ''D'' False True]"

definition example_followers :: "ig_user list" where
  "example_followers = map example_user [''B'', ''C'', ''E'']"

definition example_following :: "ig_user list" where
  "example_following = map example_user [''B'', ''D'', ''F'']"

subsection \<open>Sets and maps\<close>

lemma set_fold_set_add: "set (fold set_add xs s) = set s \<union> set xs"
  by (induction xs arbitrary: s) (auto simp: set_add_def)

lemma distinct_fold_set_add: "distinct s \<Longrightarrow> distinct (fold set_add xs s)"
  by (induction xs arbitrary: s) (auto simp: set_add_def)

lemma set_new_Set: "set (new_Set xs) = set xs"
  by (simp add: new_Set_def set_fold_set_add)

lemma distinct_new_Set: "distinct (new_Set xs)"
  by (simp add: new_Set_def distinct_fold_set_add)

lemma map_of_map_set: "map_of (map_set k v m) = (map_of m)(k \<mapsto> v)"
  by (induction m) auto

lemma keys_map_set: "fst ` set (map_set k v m) = insert k (fst ` set m)"
proof -
  have "dom (map_of (map_set k v m)) = insert k (dom (map_of m))"
    by (simp add: map_of_map_set)
  then show ?thesis by (simp add: dom_map_of_conv_image_fst)
qed

lemma distinct_map_set: "distinct (map fst m) \<Longrightarrow> distinct (map fst (map_set k v m))"
  by (induction m) (auto simp: keys_map_set)

lemma key_has_value: "k \<in> fst ` set m \<Longrightarrow> \<exists>v. map_of m k = Some v"
  by (metis domD dom_map_of_conv_image_fst)

lemma find_first_Some:
  "\<exists>x\<in>set xs. p x \<Longrightarrow> \<exists>y. find_first p xs = Some y \<and> p y"
  by (induction xs) auto

lemma length_filter_values:
  "distinct (map fst m) \<Longrightarrow>
   length (filter P (map snd m)) = card {k. \<exists>v. map_of m k = Some v \<and> P v}"
proof (induction m)
  case Nil
  then show ?case by simp
next
  case (Cons kv m)
  obtain k v where kv: "kv = (k, v)" by (cases kv)
  from Cons.prems kv have knot: "k \<notin> fst ` set m" and d: "distinct (map fst m)" by auto
  let ?S = "{k'. \<exists>v'. map_of m k' = Some v' \<and> P v'}"
  have fin: "finite ?S"
    by (rule finite_subset[of _ "dom (map_of m)"]) (auto simp: finite_dom_map_of)
  have kS: "k \<notin> ?S"
    using knot by (auto simp: dom_map_of_conv_image_fst dest!: map_of_SomeD intro: rev_image_eqI)
  have "{k'. \<exists>v'. map_of (kv # m) k' = Some v' \<and> P v'} = (if P v then insert k ?S else ?S)"
    using kS by (auto simp: kv)
  with fin kS Cons.IH[OF d] show ?case by (simp add: kv)
qed

subsection \<open>The merged map\<close>

text \<open>
  With \<open>F\<close> the ids of the scraped followers and \<open>G\<close> those of the scraped
  following: the keys of the map are distinct, every record sits under its own id, and its
  flags \<^verbatim>\<open>is_follower\<close> and \<^verbatim>\<open>is_following\<close> say whether the id is in \<open>F\<close> and in
  \<open>G\<close>.
\<close>

definition merged_inv :: "string set \<Rightarrow> string set \<Rightarrow> (string \<times> merged_user) list \<Rightarrow> bool" where
  "merged_inv F G m \<longleftrightarrow>
     distinct (map fst m) \<and>
     (\<forall>k u. map_of m k = Some u \<longrightarrow>
        ig_id (user u) = k \<and> is_follower u = (k \<in> F) \<and> is_following u = (k \<in> G))"

lemma add_follower_inv:
  assumes "merged_inv F G m" "fst ` set m \<subseteq> F" "ig_id f \<in> F" "set gs = G"
  shows "merged_inv F G (add_follower gs f m)"
  using assms
  by (auto simp: merged_inv_def add_follower_def distinct_map_set map_of_map_set has_def)

lemma fold_add_follower_inv:
  "merged_inv F G m \<Longrightarrow> fst ` set m \<subseteq> F \<Longrightarrow> ig_id ` set fs \<subseteq> F \<Longrightarrow> set gs = G \<Longrightarrow>
   merged_inv F G (fold (add_follower gs) fs m) \<and>
   fst ` set (fold (add_follower gs) fs m) = fst ` set m \<union> ig_id ` set fs"
proof (induction fs arbitrary: m)
  case Nil
  then show ?case by simp
next
  case (Cons f fs)
  have 1: "merged_inv F G (add_follower gs f m)"
    using Cons.prems by (intro add_follower_inv) auto
  have 2: "fst ` set (add_follower gs f m) = insert (ig_id f) (fst ` set m)"
    by (simp add: add_follower_def keys_map_set)
  have 3: "fst ` set (add_follower gs f m) \<subseteq> F"
    using Cons.prems 2 by auto
  from Cons.IH[OF 1 3] Cons.prems 2 show ?case by auto
qed

lemma add_following_inv:
  assumes "merged_inv F G m" "F \<subseteq> fst ` set m" "ig_id g \<in> G"
  shows "merged_inv F G (add_following g m)"
proof (cases "map_of m (ig_id g)")
  case None
  then have "ig_id g \<notin> fst ` set m" by (simp add: map_of_eq_None_iff)
  then have "ig_id g \<notin> F" using assms(2) by auto
  then show ?thesis using assms None
    by (auto simp: merged_inv_def add_following_def map_get_def distinct_map_set map_of_map_set)
next
  case (Some u)
  then show ?thesis using assms
    by (auto simp: merged_inv_def add_following_def map_get_def distinct_map_set map_of_map_set)
qed

lemma keys_add_following: "fst ` set (add_following g m) = insert (ig_id g) (fst ` set m)"
  by (auto simp: add_following_def map_get_def keys_map_set split: option.splits)

lemma fold_add_following_inv:
  "merged_inv F G m \<Longrightarrow> F \<subseteq> fst ` set m \<Longrightarrow> ig_id ` set gs \<subseteq> G \<Longrightarrow>
   merged_inv F G (fold add_following gs m) \<and>
   fst ` set (fold add_following gs m) = fst ` set m \<union> ig_id ` set gs"
proof (induction gs arbitrary: m)
  case Nil
  then show ?case by simp
next
  case (Cons g gs)
  have 1: "merged_inv F G (add_following g m)"
    using Cons.prems by (intro add_following_inv) auto
  have 2: "F \<subseteq> fst ` set (add_following g m)"
    using Cons.prems by (auto simp: keys_add_following)
  from Cons.IH[OF 1 2] Cons.prems show ?case by (auto simp: keys_add_following)
qed

lemma followers_pass_inv:
  "merged_inv (ig_id ` set fs) (ig_id ` set gs) (fold (add_follower (newFollowingIds gs)) fs [])"
  "fst ` set (fold (add_follower (newFollowingIds gs)) fs []) = ig_id ` set fs"
proof -
  have e: "merged_inv (ig_id ` set fs) (ig_id ` set gs) []" by (simp add: merged_inv_def)
  show "merged_inv (ig_id ` set fs) (ig_id ` set gs)
      (fold (add_follower (newFollowingIds gs)) fs [])"
    using fold_add_follower_inv[OF e, of fs "newFollowingIds gs"]
    by (simp add: newFollowingIds_def set_new_Set)
  show "fst ` set (fold (add_follower (newFollowingIds gs)) fs []) = ig_id ` set fs"
    using fold_add_follower_inv[OF e, of fs "newFollowingIds gs"]
    by (simp add: newFollowingIds_def set_new_Set)
qed

lemma allUsersMap_inv:
  "merged_inv (ig_id ` set fs) (ig_id ` set gs) (allUsersMap fs gs)"
  "fst ` set (allUsersMap fs gs) = ig_id ` set fs \<union> ig_id ` set gs"
proof -
  let ?F = "ig_id ` set fs" and ?G = "ig_id ` set gs"
  let ?m0 = "fold (add_follower (newFollowingIds gs)) fs []"
  have b: "merged_inv ?F ?G (fold add_following gs ?m0) \<and>
    fst ` set (fold add_following gs ?m0) = fst ` set ?m0 \<union> ?G"
    by (intro fold_add_following_inv) (simp_all add: followers_pass_inv)
  show "merged_inv ?F ?G (allUsersMap fs gs)" using b by (simp add: allUsersMap_def)
  show "fst ` set (allUsersMap fs gs) = ?F \<union> ?G"
    using b by (simp add: allUsersMap_def followers_pass_inv)
qed

lemma nonFollowersCount_card:
  "nonFollowersCount fs gs = card (ig_id ` set gs - ig_id ` set fs)"
proof -
  let ?m = "allUsersMap fs gs"
  note inv = allUsersMap_inv[of fs gs]
  have d: "distinct (map fst ?m)" using inv(1) by (simp add: merged_inv_def)
  have "{k. \<exists>v. map_of ?m k = Some v \<and> (is_following v \<and> \<not> is_follower v)}
        = ig_id ` set gs - ig_id ` set fs" (is "?L = ?R")
  proof
    show "?L \<subseteq> ?R" using inv(1) unfolding merged_inv_def by blast
    show "?R \<subseteq> ?L"
    proof
      fix k assume k: "k \<in> ?R"
      then have "k \<in> fst ` set ?m" using inv(2) by auto
      then obtain v where v: "map_of ?m k = Some v" using key_has_value by fastforce
      with inv(1) k show "k \<in> ?L" unfolding merged_inv_def by blast
    qed
  qed
  then show ?thesis
    unfolding nonFollowersCount_def map_values_def
    using length_filter_values[OF d, of "\<lambda>u. is_following u \<and> \<not> is_follower u"] by simp
qed

subsection \<open>The diff and the change events\<close>

lemma set_currentFollowerIds:
  "set (currentFollowerIds cur) =
     (case cur of None \<Rightarrow> {} | Some rows \<Rightarrow> follower_ig_id ` {r \<in> set rows. row_is_follower r})"
  by (auto simp: currentFollowerIds_def set_new_Set split: option.splits)

lemma set_currentFollowingIds:
  "set (currentFollowingIds cur) =
     (case cur of None \<Rightarrow> {} | Some rows \<Rightarrow> follower_ig_id ` {r \<in> set rows. row_is_following r})"
  by (auto simp: currentFollowingIds_def set_new_Set split: option.splits)

lemma diff_lists:
  "set (newFollowersList cur fs) = ig_id ` set fs - set (currentFollowerIds cur)"
  "set (lostFollowersList cur fs) = set (currentFollowerIds cur) - ig_id ` set fs"
  "set (newFollowingList cur gs) = ig_id ` set gs - set (currentFollowingIds cur)"
  "set (stoppedFollowingList cur gs) = set (currentFollowingIds cur) - ig_id ` set gs"
  "distinct (newFollowersList cur fs)" "distinct (lostFollowersList cur fs)"
  "distinct (newFollowingList cur gs)" "distinct (stoppedFollowingList cur gs)"
  by (auto simp: newFollowersList_def lostFollowersList_def newFollowingList_def
      stoppedFollowingList_def newFollowerIds_def newFollowingIds_def has_def set_new_Set
      distinct_new_Set currentFollowerIds_def currentFollowingIds_def)

lemma ev_count_append: "ev_count i t (xs @ ys) = ev_count i t xs + ev_count i t ys"
  by (simp add: ev_count_def)

lemma ev_count_from_map:
  "distinct xs \<Longrightarrow> set xs \<subseteq> fst ` set m \<Longrightarrow>
   ev_count i t (concat (map (change_from_map p u m ct) xs)) =
     (if t = ct \<and> i \<in> set xs then 1 else 0)"
proof (induction xs)
  case Nil
  then show ?case by (simp add: ev_count_def)
next
  case (Cons x xs)
  from Cons.prems have "x \<in> fst ` set m" by simp
  then obtain v where v: "map_of m x = Some v" using key_has_value by fastforce
  have "ev_count i t (change_from_map p u m ct x) = (if t = ct \<and> i = x then 1 else 0)"
    by (auto simp: change_from_map_def map_get_def v ev_count_def)
  with Cons show ?case by (auto simp: ev_count_append)
qed

lemma ev_count_from_rows:
  assumes "distinct xs"
    and "set xs \<subseteq> (case cur of None \<Rightarrow> {} | Some rows \<Rightarrow> follower_ig_id ` set rows)"
  shows "ev_count i t (concat (map (change_from_rows p u cur ct) xs)) =
     (if t = ct \<and> i \<in> set xs then 1 else 0)"
proof (cases cur)
  case None
  with assms show ?thesis by (simp add: ev_count_def)
next
  case (Some rows)
  from assms show ?thesis unfolding Some
  proof (induction xs)
    case Nil
    then show ?case by (simp add: ev_count_def)
  next
    case (Cons x xs)
    from Cons.prems have "\<exists>r\<in>set rows. follower_ig_id r = x" by auto
    from find_first_Some[OF this] obtain r where
      r: "find_first (\<lambda>f. follower_ig_id f = x) rows = Some r" by blast
    have "ev_count i t (change_from_rows p u (Some rows) ct x) =
        (if t = ct \<and> i = x then 1 else 0)"
      by (auto simp: change_from_rows_def r ev_count_def)
    with Cons show ?case by (auto simp: ev_count_append)
  qed
qed

lemma ev_count_changes:
  "ev_count i t (changes p u cur fs gs) =
     (if i \<in> (case t of
                NEW_FOLLOWER \<Rightarrow> ig_id ` set fs - set (currentFollowerIds cur)
              | UNFOLLOWED \<Rightarrow> set (currentFollowerIds cur) - ig_id ` set fs
              | STARTED_FOLLOWING \<Rightarrow> ig_id ` set gs - set (currentFollowingIds cur)
              | STOPPED_FOLLOWING \<Rightarrow> set (currentFollowingIds cur) - ig_id ` set gs)
      then 1 else 0)"
proof -
  let ?m = "allUsersMap fs gs"
  have keys: "fst ` set ?m = ig_id ` set fs \<union> ig_id ` set gs" by (rule allUsersMap_inv(2))
  have a: "ev_count i t (concat (map (change_from_map p u ?m NEW_FOLLOWER)
          (newFollowersList cur fs)))
      = (if t = NEW_FOLLOWER \<and> i \<in> set (newFollowersList cur fs) then 1 else 0)"
    by (rule ev_count_from_map) (auto simp: diff_lists keys)
  have c: "ev_count i t (concat (map (change_from_map p u ?m STARTED_FOLLOWING)
          (newFollowingList cur gs)))
      = (if t = STARTED_FOLLOWING \<and> i \<in> set (newFollowingList cur gs) then 1 else 0)"
    by (rule ev_count_from_map) (auto simp: diff_lists keys)
  have b: "ev_count i t (concat (map (change_from_rows p u cur UNFOLLOWED)
          (lostFollowersList cur fs)))
      = (if t = UNFOLLOWED \<and> i \<in> set (lostFollowersList cur fs) then 1 else 0)"
    by (rule ev_count_from_rows)
      (auto simp: diff_lists set_currentFollowerIds split: option.splits)
  have d: "ev_count i t (concat (map (change_from_rows p u cur STOPPED_FOLLOWING)
          (stoppedFollowingList cur gs)))
      = (if t = STOPPED_FOLLOWING \<and> i \<in> set (stoppedFollowingList cur gs) then 1 else 0)"
    by (rule ev_count_from_rows)
      (auto simp: diff_lists set_currentFollowingIds split: option.splits)
  show ?thesis
    unfolding changes_def ev_count_append a b c d
    by (cases t) (simp_all add: diff_lists)
qed

lemma upsert_batches_ok:
  "\<forall>j. upsertError j = None \<Longrightarrow>
   upsert_batches upsertError i rows w = (w @ drop i rows, None)"
proof (induction upsertError i rows w rule: upsert_batches.induct)
  case (1 upsertError i rows written)
  show ?case
  proof (cases "i < length rows")
    case True
    have none: "upsertError i = None" using "1.prems" by blast
    have step: "upsert_batches upsertError i rows written =
        upsert_batches upsertError (i + BATCH_SIZE) rows (written @ take BATCH_SIZE (drop i rows))"
      by (subst upsert_batches.simps) (simp add: True none)
    have "take BATCH_SIZE (drop i rows) @ drop (i + BATCH_SIZE) rows = drop i rows"
      by (metis add.commute append_take_drop_id drop_drop)
    with step "1.IH"[OF True none "1.prems"] show ?thesis by simp
  next
    case False
    then show ?thesis by (subst upsert_batches.simps) simp
  qed
qed

lemma syncFollowers_ok:
  assumes "\<forall>j. upsertError j = None"
  shows "syncFollowers cur upsertError now p u fs gs =
     \<lparr>followers_written = followersToUpsert p u now fs gs,
      changes_inserted = changes p u cur fs gs,
      snapshot_inserted = Some (snapshot p u cur fs gs),
      sync_result = Inr (length (followersToUpsert p u now fs gs))\<rparr>"
  by (simp add: syncFollowers_def upsert_batches_ok[OF assms])

lemma snapshot_counts:
  "new_followers (snapshot p u cur fs gs) = card (ig_id ` set fs - set (currentFollowerIds cur))"
  "lost_followers (snapshot p u cur fs gs) = card (set (currentFollowerIds cur) - ig_id ` set fs)"
  "non_followers (snapshot p u cur fs gs) = card (ig_id ` set gs - ig_id ` set fs)"
  by (simp_all add: snapshot_def nonFollowersCount_card distinct_card[symmetric] diff_lists)

lemmas example_defs = example_user_def example_row_def example_previous_def
  example_followers_def example_following_def newFollowersList_def lostFollowersList_def
  newFollowingList_def stoppedFollowingList_def currentFollowerIds_def currentFollowingIds_def
  newFollowerIds_def newFollowingIds_def new_Set_def set_add_def has_def

lemma example_diff:
  "newFollowersList example_previous example_followers = [''E'']"
  "lostFollowersList example_previous example_followers = [''A'']"
  "newFollowingList example_previous example_following = [''F'']"
  "stoppedFollowingList example_previous example_following = [''C'']"
  by (simp_all add: example_defs)

lemma example_non_followers:
  "map (\<lambda>u. ig_id (user u)) (filter (\<lambda>u. is_following u \<and> \<not> is_follower u)
     (map_values (allUsersMap example_followers example_following))) = [''D'', ''F'']"
  by (simp add: example_defs allUsersMap_def add_follower_def add_following_def
      map_values_def map_get_def)

lemma example_changes:
  "map (\<lambda>c. (change_ig_id c, change_type c))
     (changes p u example_previous example_followers example_following) =
   [(''E'', NEW_FOLLOWER), (''A'', UNFOLLOWED), (''F'', STARTED_FOLLOWING),
    (''C'', STOPPED_FOLLOWING)]"
  by (simp add: changes_def example_diff change_from_map_def change_from_rows_def)
    (simp add: example_defs allUsersMap_def add_follower_def add_following_def map_get_def)

text \<open>
  Claim C3.  For every previous state of table \<^verbatim>\<open>followers\<close> and all scraped
  follower and following lists, with the previous follower and following ids those of the
  rows flagged \<^verbatim>\<open>is_follower\<close> and \<^verbatim>\<open>is_following\<close>: the new followers are the
  current minus the previous follower ids and the lost followers the previous minus the
  current ones, and the same for following, each list without repetition; for every id and
  every change type the batch of change events holds exactly one event when the id is in
  the set of that type and none otherwise, so an id in several sets gets several events;
  the number of non-followers counts the merged records that are followed and are not
  followers, which is the number of current following ids that are not current follower
  ids; when the record store accepts the upserts, this batch and the snapshot with these
  counts are what \<^verbatim>\<open>syncFollowers\<close> inserts.  On the example of the specification the
  results are \<open>E\<close>, \<open>A\<close>, \<open>F\<close>, \<open>C\<close> and the non-followers \<open>D\<close> and \<open>F\<close>.
\<close>

theorem syncFollowers_diff_and_events:
  "set (newFollowersList cur fs) = ig_id ` set fs - set (currentFollowerIds cur)
   \<and> set (lostFollowersList cur fs) = set (currentFollowerIds cur) - ig_id ` set fs
   \<and> set (newFollowingList cur gs) = ig_id ` set gs - set (currentFollowingIds cur)
   \<and> set (stoppedFollowingList cur gs) = set (currentFollowingIds cur) - ig_id ` set gs
   \<and> distinct (newFollowersList cur fs) \<and> distinct (lostFollowersList cur fs)
   \<and> distinct (newFollowingList cur gs) \<and> distinct (stoppedFollowingList cur gs)
   \<and> set (currentFollowerIds cur) =
       (case cur of None \<Rightarrow> {}
        | Some rows \<Rightarrow> follower_ig_id ` {r \<in> set rows. row_is_follower r})
   \<and> set (currentFollowingIds cur) =
       (case cur of None \<Rightarrow> {}
        | Some rows \<Rightarrow> follower_ig_id ` {r \<in> set rows. row_is_following r})
   \<and> ev_count i t (changes p u cur fs gs) =
       (if i \<in> (case t of
                  NEW_FOLLOWER \<Rightarrow> ig_id ` set fs - set (currentFollowerIds cur)
                | UNFOLLOWED \<Rightarrow> set (currentFollowerIds cur) - ig_id ` set fs
                | STARTED_FOLLOWING \<Rightarrow> ig_id ` set gs - set (currentFollowingIds cur)
                | STOPPED_FOLLOWING \<Rightarrow> set (currentFollowingIds cur) - ig_id ` set gs)
        then 1 else 0)
   \<and> nonFollowersCount fs gs =
       length (filter (\<lambda>u. is_following u \<and> \<not> is_follower u)
                 (map_values (allUsersMap fs gs)))
   \<and> nonFollowersCount fs gs = card (ig_id ` set gs - ig_id ` set fs)
   \<and> new_followers (snapshot p u cur fs gs) =
       card (ig_id ` set fs - set (currentFollowerIds cur))
   \<and> lost_followers (snapshot p u cur fs gs) =
       card (set (currentFollowerIds cur) - ig_id ` set fs)
   \<and> non_followers (snapshot p u cur fs gs) = card (ig_id ` set gs - ig_id ` set fs)
   \<and> ((\<forall>j. upsertError j = None) \<longrightarrow>
        changes_inserted (syncFollowers cur upsertError now p u fs gs) =
          changes p u cur fs gs
        \<and> snapshot_inserted (syncFollowers cur upsertError now p u fs gs) =
          Some (snapshot p u cur fs gs))
   \<and> newFollowersList example_previous example_followers = [''E'']
   \<and> lostFollowersList example_previous example_followers = [''A'']
   \<and> newFollowingList example_previous example_following = [''F'']
   \<and> stoppedFollowingList example_previous example_following = [''C'']
   \<and> map (\<lambda>u. ig_id (user u)) (filter (\<lambda>u. is_following u \<and> \<not> is_follower u)
        (map_values (allUsersMap example_followers example_following))) = [''D'', ''F'']
   \<and> map (\<lambda>c. (change_ig_id c, change_type c))
        (changes p u example_previous example_followers example_following) =
      [(''E'', NEW_FOLLOWER), (''A'', UNFOLLOWED), (''F'', STARTED_FOLLOWING),
       (''C'', STOPPED_FOLLOWING)]"
proof -
  have sync: "(\<forall>j. upsertError j = None) \<longrightarrow>
        changes_inserted (syncFollowers cur upsertError now p u fs gs) =
          changes p u cur fs gs
        \<and> snapshot_inserted (syncFollowers cur upsertError now p u fs gs) =
          Some (snapshot p u cur fs gs)"
    by (simp add: syncFollowers_ok)
  have nf: "nonFollowersCount fs gs =
       length (filter (\<lambda>u. is_following u \<and> \<not> is_follower u)
                 (map_values (allUsersMap fs gs)))"
    by (simp add: nonFollowersCount_def)
  show ?thesis
    by (intro conjI diff_lists set_currentFollowerIds set_currentFollowingIds
        ev_count_changes nf nonFollowersCount_card snapshot_counts sync example_diff
        example_non_followers example_changes)
qed

theorem syncFollowers_diff_and_events_witness:
  "(\<forall>j. (\<lambda>_::nat. None::string option) j = None)
   \<and> changes_inserted (syncFollowers example_previous (\<lambda>_. None) 0 ''p'' ''u''
        example_followers example_following) =
      changes ''p'' ''u'' example_previous example_followers example_following
   \<and> ev_count ''E'' NEW_FOLLOWER
        (changes ''p'' ''u'' example_previous example_followers example_following) = 1
   \<and> ev_count ''B'' NEW_FOLLOWER
        (changes ''p'' ''u'' example_previous example_followers example_following) = 0
   \<and> non_followers (snapshot ''p'' ''u'' example_previous example_followers example_following)
       = 2"
  using syncFollowers_diff_and_events[where cur = example_previous
      and fs = example_followers and gs = example_following and p = "''p''" and u = "''u''"
      and upsertError = "\<lambda>_. None" and now = 0 and i = "''E''" and t = NEW_FOLLOWER]
    syncFollowers_diff_and_events[where cur = example_previous
      and fs = example_followers and gs = example_following and p = "''p''" and u = "''u''"
      and upsertError = "\<lambda>_. None" and now = 0 and i = "''B''" and t = NEW_FOLLOWER]
  by (simp add: example_defs)

subsection \<open>The follow-back flag\<close>

definition back_inv :: "(string \<times> merged_user) list \<Rightarrow> bool" where
  "back_inv m \<longleftrightarrow>
     (\<forall>k u. map_of m k = Some u \<longrightarrow> is_following_back u = (is_follower u \<and> is_following u))"

lemma add_follower_back: "back_inv m \<Longrightarrow> back_inv (add_follower gs f m)"
  by (auto simp: back_inv_def add_follower_def map_of_map_set)

lemma fold_add_follower_back:
  "back_inv m \<Longrightarrow> back_inv (fold (add_follower gs) fs m)"
  by (induction fs arbitrary: m) (simp_all add: add_follower_back)

lemma fold_add_following_back:
  "distinct (map ig_id gs) \<Longrightarrow> back_inv m \<Longrightarrow> merged_inv F G m \<Longrightarrow> F \<subseteq> fst ` set m \<Longrightarrow>
   fst ` set m \<inter> ig_id ` set gs \<subseteq> F \<Longrightarrow> ig_id ` set gs \<subseteq> G \<Longrightarrow>
   back_inv (fold add_following gs m)"
proof (induction gs arbitrary: m)
  case Nil
  then show ?case by simp
next
  case (Cons g gs)
  have b: "back_inv (add_following g m)"
  proof (cases "map_of m (ig_id g)")
    case None
    with Cons.prems(2) show ?thesis
      by (auto simp: back_inv_def add_following_def map_get_def map_of_map_set)
  next
    case (Some e)
    then have "ig_id g \<in> fst ` set m" by (metis domI dom_map_of_conv_image_fst)
    with Cons.prems(5) have "ig_id g \<in> F" by auto
    with Some Cons.prems(3) have "is_follower e" by (auto simp: merged_inv_def)
    with Some Cons.prems(2) show ?thesis
      by (auto simp: back_inv_def add_following_def map_get_def map_of_map_set)
  qed
  have i: "merged_inv F G (add_following g m)"
    using Cons.prems by (intro add_following_inv) auto
  show ?case
    using Cons.prems b i
    by (simp) (rule Cons.IH, auto simp: keys_add_following)
qed

text \<open>
  When no id occurs twice in the scraped following list, every upserted record has
  \<^verbatim>\<open>is_following_back\<close> equal to \<^verbatim>\<open>is_follower && is_following\<close>.
\<close>

lemma following_back_when_distinct:
  assumes "distinct (map ig_id gs)"
    and "r \<in> set (followersToUpsert p u now fs gs)"
  shows "up_is_following_back r = (up_is_follower r \<and> up_is_following r)"
proof -
  let ?F = "ig_id ` set fs" and ?G = "ig_id ` set gs"
  let ?m0 = "fold (add_follower (newFollowingIds gs)) fs []"
  have b0: "back_inv ?m0" by (rule fold_add_follower_back) (simp add: back_inv_def)
  have b: "back_inv (allUsersMap fs gs)"
    unfolding allUsersMap_def
    by (rule fold_add_following_back[OF assms(1) b0, of ?F ?G])
      (simp_all add: followers_pass_inv)
  have d: "distinct (map fst (allUsersMap fs gs))"
    using allUsersMap_inv(1)[of fs gs] by (simp add: merged_inv_def)
  from assms(2) obtain k v where kv: "(k, v) \<in> set (allUsersMap fs gs)"
    and r: "up_is_following_back r = is_following_back v" "up_is_follower r = is_follower v"
      "up_is_following r = is_following v"
    by (auto simp: followersToUpsert_def map_values_def)
  from kv d have "map_of (allUsersMap fs gs) k = Some v" by simp
  with b r show ?thesis by (simp add: back_inv_def)
qed

text \<open>
  Claim C4.  The scraped following list names the account \<open>D\<close> twice and \<open>D\<close> is not a
  follower.  The second occurrence finds the record the first one created and sets
  \<^verbatim>\<open>is_following_back\<close> on it: the upserted row has \<^verbatim>\<open>is_follower\<close> false,
  \<^verbatim>\<open>is_following\<close> true and \<^verbatim>\<open>is_following_back\<close> true.
\<close>

theorem following_back_duplicate_following:
  "map (\<lambda>r. (up_follower_ig_id r, up_is_follower r, up_is_following r, up_is_following_back r))
     (followersToUpsert ''p'' ''u'' 0 [] [example_user ''D'', example_user ''D''])
   = [(''D'', False, True, True)]"
  by (simp add: followersToUpsert_def allUsersMap_def add_following_def map_get_def
      map_values_def example_user_def)

section \<open>JavaScript numbers\<close>

text \<open>
  A number of the source is an IEEE 754 double: a finite value, which is a rational, an
  infinity, or \<^verbatim>\<open>NaN\<close>.  The sign of zero is not modelled: the source divides by
  counts only, and a zero is written to the record store as \<open>0\<close> whatever its sign.
\<close>

datatype double = Finite rat | PosInfinity | NegInfinity | NaN

text \<open>The power \<open>2 ^ e\<close> for an integer \<open>e\<close>, negative or not.\<close>

definition pow2 :: "int \<Rightarrow> rat" where
  "pow2 e = (if 0 \<le> e then 2 ^ nat e else 1 / 2 ^ nat (- e))"

text \<open>The binary exponent of a positive rational: the \<open>e\<close> with \<open>2 ^ e \<le> x < 2 ^ (e + 1)\<close>.\<close>

function log2_floor :: "rat \<Rightarrow> int" where
  "log2_floor x =
     (if x \<le> 0 then 0
      else if 2 \<le> x then log2_floor (x / 2) + 1
      else if x < 1 then log2_floor (x * 2) - 1
      else 0)"
  by pat_completeness auto
termination
proof (relation "measure (\<lambda>x. nat \<lfloor>x\<rfloor> + 2 * nat \<lceil>1 / x\<rceil>)", goal_cases)
  case 1
  show ?case by simp
next
  case (2 x)
  then have x: "2 \<le> x" by simp
  have a: "\<lfloor>x / 2\<rfloor> < \<lfloor>x\<rfloor>" using x by linarith
  have b: "\<lceil>1 / (x / 2)\<rceil> = 1" using x by (simp add: ceiling_eq_iff)
  have c: "\<lceil>1 / x\<rceil> = 1" using x by (simp add: ceiling_eq_iff field_simps)
  have d: "0 \<le> \<lfloor>x / 2\<rfloor>" using x by simp
  show ?case using x a b c d by simp
next
  case (3 x)
  then have x: "0 < x" "x < 1" by simp_all
  have f: "\<lfloor>x\<rfloor> = 0" using x by (simp add: floor_eq_iff)
  have g: "\<lfloor>x * 2\<rfloor> \<le> 1" using x by (simp add: floor_le_iff)
  have y: "1 < 1 / x" using x by simp
  have "\<lceil>1 / (x * 2)\<rceil> < \<lceil>1 / x\<rceil>"
  proof -
    have n2: "2 \<le> \<lceil>1 / x\<rceil>" using y by linarith
    have "1 / x \<le> of_int \<lceil>1 / x\<rceil>" by (rule le_of_int_ceiling)
    then have "1 / (x * 2) \<le> of_int \<lceil>1 / x\<rceil> / 2" by simp
    also have "\<dots> \<le> of_int (\<lceil>1 / x\<rceil> - 1)" using n2 by simp
    finally have "\<lceil>1 / (x * 2)\<rceil> \<le> \<lceil>1 / x\<rceil> - 1" by (rule ceiling_le)
    then show ?thesis by simp
  qed
  moreover have "0 < \<lceil>1 / (x * 2)\<rceil>" using x by simp
  moreover have "0 \<le> \<lfloor>x * 2\<rfloor>" using x by simp
  ultimately have "nat \<lfloor>x * 2\<rfloor> + 2 * nat \<lceil>1 / (x * 2)\<rceil> < nat \<lfloor>x\<rfloor> + 2 * nat \<lceil>1 / x\<rceil>"
    using f g by linarith
  then show ?case by simp
qed

declare log2_floor.simps [simp del]

text \<open>The nearest integer, the even one of the two on a tie.\<close>

definition round_even :: "rat \<Rightarrow> int" where
  "round_even q =
     (if q - of_int \<lfloor>q\<rfloor> < 1 / 2 then \<lfloor>q\<rfloor>
      else if 1 / 2 < q - of_int \<lfloor>q\<rfloor> then \<lfloor>q\<rfloor> + 1
      else if even \<lfloor>q\<rfloor> then \<lfloor>q\<rfloor> else \<lfloor>q\<rfloor> + 1)"

text \<open>
  The double nearest to a rational, ties to the even significand.  The significand has 53
  bits, so the doubles around \<open>x\<close> are the multiples of \<open>2 ^ (e - 52)\<close>, with \<open>e\<close> the
  exponent of \<open>x\<close> and at least \<open>-1022\<close> (below it the doubles are the subnormal ones, the
  multiples of \<open>2 ^ (-1074)\<close>); a result of magnitude \<open>2 ^ 1024\<close> overflows to an infinity.
\<close>

definition round_double :: "rat \<Rightarrow> double" where
  "round_double x =
     (if x = 0 then Finite 0
      else
        (let e = max (log2_floor \<bar>x\<bar>) (- 1022);
             ulp = pow2 (e - 52);
             y = of_int (round_even (\<bar>x\<bar> / ulp)) * ulp
         in if pow2 1024 \<le> y then (if 0 < x then PosInfinity else NegInfinity)
            else Finite (if 0 < x then y else - y)))"

text \<open>The number read from an integer of the record store or from a length.\<close>

definition js_number :: "int \<Rightarrow> double" where
  "js_number n = round_double (of_int n)"

text \<open>\<^verbatim>\<open>x + y\<close>, \<^verbatim>\<open>x * y\<close> and \<^verbatim>\<open>x / y\<close>: the exact result, rounded.\<close>

fun fadd :: "double \<Rightarrow> double \<Rightarrow> double" where
  "fadd (Finite a) (Finite b) = round_double (a + b)"
| "fadd NaN y = NaN"
| "fadd x NaN = NaN"
| "fadd PosInfinity NegInfinity = NaN"
| "fadd NegInfinity PosInfinity = NaN"
| "fadd PosInfinity y = PosInfinity"
| "fadd x PosInfinity = PosInfinity"
| "fadd NegInfinity y = NegInfinity"
| "fadd x NegInfinity = NegInfinity"

fun fmul :: "double \<Rightarrow> double \<Rightarrow> double" where
  "fmul (Finite a) (Finite b) = round_double (a * b)"
| "fmul NaN y = NaN"
| "fmul x NaN = NaN"
| "fmul (Finite a) PosInfinity =
     (if a = 0 then NaN else if 0 < a then PosInfinity else NegInfinity)"
| "fmul (Finite a) NegInfinity =
     (if a = 0 then NaN else if 0 < a then NegInfinity else PosInfinity)"
| "fmul PosInfinity (Finite b) =
     (if b = 0 then NaN else if 0 < b then PosInfinity else NegInfinity)"
| "fmul NegInfinity (Finite b) =
     (if b = 0 then NaN else if 0 < b then NegInfinity else PosInfinity)"
| "fmul PosInfinity PosInfinity = PosInfinity"
| "fmul NegInfinity NegInfinity = PosInfinity"
| "fmul PosInfinity NegInfinity = NegInfinity"
| "fmul NegInfinity PosInfinity = NegInfinity"

fun fdiv :: "double \<Rightarrow> double \<Rightarrow> double" where
  "fdiv (Finite a) (Finite b) =
     (if b = 0 then (if a = 0 then NaN else if 0 < a then PosInfinity else NegInfinity)
      else round_double (a / b))"
| "fdiv NaN y = NaN"
| "fdiv x NaN = NaN"
| "fdiv (Finite a) y = Finite 0"
| "fdiv PosInfinity (Finite b) = (if 0 \<le> b then PosInfinity else NegInfinity)"
| "fdiv NegInfinity (Finite b) = (if 0 \<le> b then NegInfinity else PosInfinity)"
| "fdiv x y = NaN"

text \<open>\<^verbatim>\<open>x || d\<close> on a computed number: \<open>0\<close> and \<^verbatim>\<open>NaN\<close> are falsy.\<close>

definition number_or :: "double \<Rightarrow> double \<Rightarrow> double" where
  "number_or x d = (if x = Finite 0 \<or> x = NaN then d else x)"

text \<open>
  The running sum that a loop of the source keeps of the counts of a list, starting with
  the first count.
\<close>

definition js_sum :: "int list \<Rightarrow> double" where
  "js_sum ns = (case ns of [] \<Rightarrow> Finite 0 | n # ns' \<Rightarrow> foldl fadd (js_number n) (map js_number ns'))"

subsection \<open>Integers below the 53rd power of two are exact\<close>

lemma pow2_pos: "0 < pow2 e"
  by (simp add: pow2_def)

lemma pow2_Suc: "pow2 (e + 1) = 2 * pow2 e"
proof (cases "0 \<le> e")
  case True
  then show ?thesis by (simp add: pow2_def nat_add_distrib)
next
  case False
  then have "nat (- e) = Suc (nat (- (e + 1)))" by simp
  with False show ?thesis by (simp add: pow2_def)
qed

lemma pow2_mono: "a \<le> b \<Longrightarrow> pow2 a \<le> pow2 b"
proof -
  have "pow2 a \<le> pow2 (a + int k)" for k
  proof (induction k)
    case 0
    then show ?case by simp
  next
    case (Suc k)
    have "pow2 (a + int (Suc k)) = 2 * pow2 (a + int k)"
      using pow2_Suc[of "a + int k"] by (simp add: ac_simps)
    with Suc pow2_pos[of "a + int k"] show ?case by simp
  qed
  from this[of "nat (b - a)"] show "a \<le> b \<Longrightarrow> pow2 a \<le> pow2 b" by simp
qed

lemma log2_floor_bounds:
  "0 < x \<Longrightarrow> pow2 (log2_floor x) \<le> x \<and> x < pow2 (log2_floor x + 1)"
proof (induction x rule: log2_floor.induct)
  case (1 x)
  show ?case
  proof (cases "2 \<le> x")
    case True
    then have e: "log2_floor x = log2_floor (x / 2) + 1"
      by (subst log2_floor.simps) simp
    from True "1.prems" have "pow2 (log2_floor (x / 2)) \<le> x / 2 \<and>
        x / 2 < pow2 (log2_floor (x / 2) + 1)"
      by (intro "1.IH"(1)) simp_all
    then show ?thesis unfolding e pow2_Suc by simp
  next
    case False
    show ?thesis
    proof (cases "x < 1")
      case True
      with "1.prems" False have e: "log2_floor x = log2_floor (x * 2) - 1"
        by (subst log2_floor.simps) simp
      from True False "1.prems" have "pow2 (log2_floor (x * 2)) \<le> x * 2 \<and>
          x * 2 < pow2 (log2_floor (x * 2) + 1)"
        by (intro "1.IH"(2)) simp_all
      moreover have "pow2 (log2_floor (x * 2)) = 2 * pow2 (log2_floor (x * 2) - 1)"
        using pow2_Suc[of "log2_floor (x * 2) - 1"] by simp
      ultimately show ?thesis unfolding e pow2_Suc by simp
    next
      case x: False
      with False "1.prems" have e: "log2_floor x = 0"
        by (subst log2_floor.simps) simp
      with False x show ?thesis by (simp add: pow2_def)
    qed
  qed
qed

lemma round_even_of_int: "round_even (of_int k) = k"
  by (simp add: round_even_def)

lemma round_double_of_int:
  assumes "\<bar>n\<bar> < 2 ^ 53"
  shows "round_double (of_int n) = Finite (of_int n)"
proof (cases "n = 0")
  case True
  then show ?thesis by (simp add: round_double_def)
next
  case False
  define x :: rat where "x = \<bar>of_int n\<bar>"
  let ?e = "log2_floor x"
  have x1: "1 \<le> x"
  proof -
    from False have "1 \<le> \<bar>n\<bar>" by simp
    then have "(of_int 1 :: rat) \<le> of_int \<bar>n\<bar>" by (simp only: of_int_le_iff)
    then show ?thesis by (simp add: x_def)
  qed
  have x53: "x < 2 ^ 53"
  proof -
    from assms have "(of_int \<bar>n\<bar> :: rat) < of_int (2 ^ 53)" by (simp only: of_int_less_iff)
    then show ?thesis by (simp add: x_def)
  qed
  have b: "pow2 ?e \<le> x" "x < pow2 (?e + 1)"
    using log2_floor_bounds[of x] x1 by simp_all
  have e0: "0 \<le> ?e"
  proof (rule ccontr)
    assume "\<not> 0 \<le> ?e"
    then have "?e + 1 \<le> 0" by simp
    from pow2_mono[OF this] have "pow2 (?e + 1) \<le> 1" by (simp add: pow2_def)
    with b(2) x1 show False by simp
  qed
  have e52: "?e \<le> 52"
  proof (rule ccontr)
    assume "\<not> ?e \<le> 52"
    then have "53 \<le> ?e" by simp
    from pow2_mono[OF this] have "2 ^ 53 \<le> pow2 ?e" by (simp add: pow2_def)
    with b(1) x53 show False by simp
  qed
  define k where "k = nat (52 - ?e)"
  have m: "max ?e (- 1022) = ?e" using e0 by simp
  have ulp: "pow2 (?e - 52) = 1 / 2 ^ k"
  proof (cases "?e = 52")
    case True
    then show ?thesis by (simp add: pow2_def k_def)
  next
    case False
    with e52 have "\<not> 0 \<le> ?e - 52" by simp
    then show ?thesis unfolding pow2_def k_def by (simp add: algebra_simps)
  qed
  have q: "x / pow2 (?e - 52) = of_int (\<bar>n\<bar> * 2 ^ k)"
    unfolding ulp by (simp add: x_def)
  have y: "of_int (round_even (x / pow2 (?e - 52))) * pow2 (?e - 52) = x"
    unfolding q round_even_of_int unfolding ulp by (simp add: x_def)
  have big: "\<not> pow2 1024 \<le> x"
  proof -
    have "(2::rat) ^ 53 \<le> pow2 1024" using pow2_mono[of 53 1024] by (simp add: pow2_def)
    with x53 show ?thesis by simp
  qed
  have "round_double (of_int n) =
      (let e = max (log2_floor x) (- 1022);
           ulp = pow2 (e - 52);
           y = of_int (round_even (x / ulp)) * ulp
       in if pow2 1024 \<le> y then (if 0 < (of_int n :: rat) then PosInfinity else NegInfinity)
          else Finite (if 0 < (of_int n :: rat) then y else - y))"
    unfolding round_double_def x_def using False by simp
  also have "\<dots> = Finite (if 0 < (of_int n :: rat) then x else - x)"
    unfolding Let_def m y using big by simp
  also have "\<dots> = Finite (of_int n)" by (simp add: x_def)
  finally show ?thesis .
qed

lemma js_number_exact: "\<bar>n\<bar> < 2 ^ 53 \<Longrightarrow> js_number n = Finite (of_int n)"
  by (simp add: js_number_def round_double_of_int)

lemma fadd_exact:
  "\<bar>a + b\<bar> < 2 ^ 53 \<Longrightarrow> fadd (Finite (of_int a)) (Finite (of_int b)) = Finite (of_int (a + b))"
  using round_double_of_int[of "a + b"] by simp

lemma sum_list_abs: "\<bar>sum_list ns\<bar> \<le> sum_list (map abs ns)" for ns :: "int list"
  by (induction ns) auto

lemma foldl_fadd_exact:
  "\<bar>a\<bar> + sum_list (map abs ns) < 2 ^ 53 \<Longrightarrow>
   foldl fadd (Finite (of_int a)) (map js_number ns) = Finite (of_int (a + sum_list ns))"
proof (induction ns arbitrary: a)
  case Nil
  then show ?case by simp
next
  case (Cons n ns)
  have p: "0 \<le> sum_list (map abs ns)" by (induction ns) auto
  from Cons.prems p have n: "\<bar>n\<bar> < 2 ^ 53" and an: "\<bar>a + n\<bar> < 2 ^ 53" by simp_all
  from Cons.prems have r: "\<bar>a + n\<bar> + sum_list (map abs ns) < 2 ^ 53" by simp
  have "fadd (Finite (of_int a)) (js_number n) = Finite (of_int (a + n))"
    by (simp only: js_number_exact[OF n] fadd_exact[OF an])
  with Cons.IH[OF r] show ?case by (simp add: add.assoc)
qed

lemma js_sum_exact:
  "sum_list (map abs ns) < 2 ^ 53 \<Longrightarrow> js_sum ns = Finite (of_int (sum_list ns))"
proof (cases ns)
  case Nil
  then show ?thesis by (simp add: js_sum_def)
next
  case (Cons n ns')
  assume b: "sum_list (map abs ns) < 2 ^ 53"
  have p: "0 \<le> sum_list (map abs ns')" by (induction ns') auto
  from b p Cons have n: "\<bar>n\<bar> < 2 ^ 53" by simp
  from b Cons have "\<bar>n\<bar> + sum_list (map abs ns') < 2 ^ 53" by simp
  from foldl_fadd_exact[OF this] show ?thesis
    by (simp add: js_sum_def Cons js_number_exact[OF n])
qed

lemma js_sum_snoc: "ns \<noteq> [] \<Longrightarrow> js_sum (ns @ [n]) = fadd (js_sum ns) (js_number n)"
  by (cases ns) (simp_all add: js_sum_def)

subsection \<open>Rounding a given rational\<close>

lemma log2_floor_unique:
  assumes "0 < x" "pow2 e \<le> x" "x < pow2 (e + 1)"
  shows "log2_floor x = e"
proof -
  let ?f = "log2_floor x"
  have b: "pow2 ?f \<le> x" "x < pow2 (?f + 1)" using log2_floor_bounds[OF assms(1)] by simp_all
  have "\<not> ?f < e"
  proof
    assume "?f < e"
    then have "?f + 1 \<le> e" by simp
    from pow2_mono[OF this] b(2) assms(2) show False by simp
  qed
  moreover have "\<not> e < ?f"
  proof
    assume "e < ?f"
    then have "e + 1 \<le> ?f" by simp
    from pow2_mono[OF this] b(1) assms(3) show False by simp
  qed
  ultimately show ?thesis by simp
qed

lemma round_even_eval:
  assumes "of_int m - 1 / 2 < q" "q < of_int m + 1 / 2"
  shows "round_even q = m"
proof (cases "of_int m \<le> q")
  case True
  with assms have "\<lfloor>q\<rfloor> = m" by (intro floor_unique) simp_all
  with assms show ?thesis by (simp add: round_even_def)
next
  case False
  with assms have f: "\<lfloor>q\<rfloor> = m - 1" by (intro floor_unique) simp_all
  from assms False have "1 / 2 < q - of_int (m - 1)" by simp
  then show ?thesis unfolding round_even_def f by simp
qed

lemma round_double_eval:
  assumes "0 < x" "pow2 e \<le> x" "x < pow2 (e + 1)" "- 1022 \<le> e"
    and "of_int m - 1 / 2 < x / pow2 (e - 52)" "x / pow2 (e - 52) < of_int m + 1 / 2"
    and "of_int m * pow2 (e - 52) < pow2 1024"
  shows "round_double x = Finite (of_int m * pow2 (e - 52))"
proof -
  have l: "log2_floor x = e" using assms(1-3) by (intro log2_floor_unique) simp_all
  have a: "\<bar>x\<bar> = x" using assms(1) by simp
  have r: "round_even (x / pow2 (e - 52)) = m" by (rule round_even_eval[OF assms(5,6)])
  have m: "max e (- 1022) = e" using assms(4) by simp
  show ?thesis
    unfolding round_double_def a l Let_def m r using assms(1,7) by simp
qed

lemma round_double_numeral [simp]:
  "(numeral k :: int) < 2 ^ 53 \<Longrightarrow> round_double (numeral k) = Finite (numeral k)"
  using round_double_of_int[of "numeral k"] by simp

lemma js_number_numeral [simp]:
  "(numeral k :: int) < 2 ^ 53 \<Longrightarrow> js_number (numeral k) = Finite (numeral k)"
  by (simp add: js_number_def)

lemma js_number_0 [simp]: "js_number 0 = Finite 0"
  by (simp add: js_number_def round_double_def)

lemma js_number_1 [simp]: "js_number 1 = Finite 1"
  using js_number_exact[of 1] by simp

text \<open>
  Three computations: the rate of the example of the specification, a rate that the
  rounding moves off the exact quotient (\<open>7.000000000000001\<close> for \<open>7\<close>), and a division
  of zero by zero.
\<close>

lemma round_double_tenth:
  "round_double (1 / 10) = Finite (3602879701896397 / 36028797018963968)"
  using round_double_eval[of "1 / 10" "- 4" 7205759403792794] by (simp add: pow2_def)

lemma round_double_ten:
  "round_double (3602879701896397 / 36028797018963968 * 100) = Finite 10"
  using round_double_eval[of "3602879701896397 / 36028797018963968 * 100" 3 5629499534213120]
  by (simp add: pow2_def)

lemma round_double_7_100:
  "round_double (7 / 100) = Finite (1261007895663739 / 18014398509481984)"
  using round_double_eval[of "7 / 100" "- 4" 5044031582654956] by (simp add: pow2_def)

lemma round_double_7:
  "round_double (1261007895663739 / 18014398509481984 * 100) =
     Finite (7881299347898369 / 1125899906842624)"
  using round_double_eval[of "1261007895663739 / 18014398509481984 * 100" 2 7881299347898369]
  by (simp add: pow2_def)

lemma rate_examples:
  "fmul (fdiv (fdiv (Finite 500) (Finite 5)) (Finite 1000)) (Finite 100) = Finite 10"
  "fmul (fdiv (fdiv (Finite 70) (Finite 1)) (Finite 1000)) (Finite 100) =
     Finite (7881299347898369 / 1125899906842624)"
  "fdiv (Finite 0) (Finite 0) = NaN"
  using round_double_tenth round_double_ten round_double_7_100 round_double_7 by simp_all


section \<open>SupabaseService.deriveMetrics\<close>

text \<open>
  The counts that the function reads from the record store are integers (the columns are
  32-bit integers).  Its sums of likes and comments, its quotients and its product are
  those of JavaScript numbers: each is rounded to a double.  The follower counts are
  compared and subtracted as integers, which is exact on 32-bit integers; where a count
  enters a quotient it is read as a number.  The occurrence count of a hashtag grows by
  one from one, which is exact below \<open>2 ^ 53\<close>, and is a natural number.  A timestamp is
  the number of milliseconds of its \<^verbatim>\<open>Date\<close>, a date the number of its day.  Every
  query of the function is restricted to the profile, so each table is modelled by its
  rows for that profile.
\<close>

text \<open>\<^verbatim>\<open>x || d\<close> on a count read from the store: \<^verbatim>\<open>null\<close>, \<^verbatim>\<open>undefined\<close> and \<open>0\<close> are falsy.\<close>

definition num_or :: "int option \<Rightarrow> int \<Rightarrow> int" where
  "num_or x d = (case x of None \<Rightarrow> d | Some n \<Rightarrow> if n = 0 then d else n)"

record profile_row =
  profile_followers_count :: "int option"
  profile_following_count :: "int option"

record media_post =
  hashtags :: "string list option"
  likes_count :: "int option"
  comments_count :: "int option"
  timestamp :: int

record insight_row =
  insight_profile_id :: string
  insight_user_id :: string
  date :: int
  followers_count :: int
  followers_growth :: int
  engagement_rate :: double
  reach :: int
  impressions :: int

record tag_stats =
  count :: nat
  totalLikes :: double
  totalComments :: double
  firstUsed :: int
  lastUsed :: int

record hashtag_row =
  hashtag_profile_id :: string
  hashtag_user_id :: string
  hashtag :: string
  usage_count :: nat
  total_engagement :: double
  avg_engagement :: double
  first_used :: int
  last_used :: int

text \<open>
  \<^verbatim>\<open>media?.reduce((sum, m) => sum + (m.likes_count || 0), 0) || 0\<close>, and the same for
  the comments; \<^verbatim>\<open>media\<close> is \<^verbatim>\<open>null\<close> when its select fails.
\<close>

definition totalLikes_of :: "media_post list option \<Rightarrow> double" where
  "totalLikes_of media =
     (case media of None \<Rightarrow> Finite 0
      | Some ms \<Rightarrow>
          number_or
            (fold (\<lambda>m sum. fadd sum (js_number (num_or (likes_count m) 0))) ms (Finite 0))
            (Finite 0))"

definition totalComments_of :: "media_post list option \<Rightarrow> double" where
  "totalComments_of media =
     (case media of None \<Rightarrow> Finite 0
      | Some ms \<Rightarrow>
          number_or
            (fold (\<lambda>m sum. fadd sum (js_number (num_or (comments_count m) 0))) ms (Finite 0))
            (Finite 0))"

definition totalEngagement :: "media_post list option \<Rightarrow> double" where
  "totalEngagement media = fadd (totalLikes_of media) (totalComments_of media)"

definition postsCount :: "media_post list option \<Rightarrow> nat" where
  "postsCount media = (case media of None \<Rightarrow> 0 | Some ms \<Rightarrow> length ms)"

definition followersCount :: "profile_row \<Rightarrow> int" where
  "followersCount profile = num_or (profile_followers_count profile) 0"

text \<open>
  \<^verbatim>\<open>followersCount > 0 && postsCount > 0 ?
  ((totalEngagement / postsCount) / followersCount) * 100 : 0\<close>
\<close>

definition engagementRate :: "profile_row \<Rightarrow> media_post list option \<Rightarrow> double" where
  "engagementRate profile media =
     (if followersCount profile > 0 \<and> postsCount media > 0
      then fmul
             (fdiv (fdiv (totalEngagement media) (js_number (int (postsCount media))))
                (js_number (followersCount profile)))
             (Finite 100)
      else Finite 0)"

text \<open>
  The query \<^verbatim>\<open>.order('date', { ascending: false }).limit(1)\<close> on
  \<^verbatim>\<open>profile_insights_daily\<close>: the row of the greatest date, if there is a row.  The
  result is \<^verbatim>\<open>null\<close> when the select fails (its error is not looked at).
\<close>

fun latest :: "insight_row list \<Rightarrow> insight_row option" where
  "latest [] = None"
| "latest (r # rs) =
     (case latest rs of
        None \<Rightarrow> Some r
      | Some r' \<Rightarrow> if date r < date r' then Some r' else Some r)"

definition previousInsights :: "bool \<Rightarrow> insight_row list \<Rightarrow> insight_row list option" where
  "previousInsights select_ok table =
     (if select_ok then Some (case latest table of None \<Rightarrow> [] | Some r \<Rightarrow> [r]) else None)"

text \<open>\<^verbatim>\<open>previousInsights?.[0]?.followers_count || followersCount\<close>\<close>

definition previousFollowersCount :: "insight_row list option \<Rightarrow> profile_row \<Rightarrow> int" where
  "previousFollowersCount prev profile =
     num_or (case prev of Some (r # _) \<Rightarrow> Some (followers_count r) | _ \<Rightarrow> None)
       (followersCount profile)"

definition followersGrowth :: "insight_row list option \<Rightarrow> profile_row \<Rightarrow> int" where
  "followersGrowth prev profile = followersCount profile - previousFollowersCount prev profile"

text \<open>The row passed to the upsert of \<^verbatim>\<open>profile_insights_daily\<close>.\<close>

definition dailyInsight :: "string \<Rightarrow> string \<Rightarrow> int \<Rightarrow> profile_row \<Rightarrow> media_post list option
    \<Rightarrow> insight_row list option \<Rightarrow> insight_row" where
  "dailyInsight profileId userId today profile media prev =
     \<lparr>insight_profile_id = profileId, insight_user_id = userId, date = today,
      followers_count = followersCount profile,
      followers_growth = followersGrowth prev profile,
      engagement_rate = engagementRate profile media,
      reach = 0, impressions = 0\<rparr>"

text \<open>An upsert with \<^verbatim>\<open>onConflict: 'profile_id,date'\<close> on the rows of the profile.\<close>

fun upsert_insight :: "insight_row \<Rightarrow> insight_row list \<Rightarrow> insight_row list" where
  "upsert_insight r [] = [r]"
| "upsert_insight r (x # xs) = (if date x = date r then r # xs else x # upsert_insight r xs)"

text \<open>\<^verbatim>\<open>tag.startsWith('#') ? tag : `#${tag}`\<close>\<close>

definition cleanTag :: "string \<Rightarrow> string" where
  "cleanTag tag = (case tag of c # _ \<Rightarrow> if c = CHR ''#'' then tag else CHR ''#'' # tag
                   | [] \<Rightarrow> CHR ''#'' # tag)"

text \<open>The body of \<^verbatim>\<open>hashtags.forEach\<close> for a post with the given counts and date.\<close>

definition add_tag :: "double \<Rightarrow> double \<Rightarrow> int \<Rightarrow> string \<Rightarrow> (string \<times> tag_stats) list
    \<Rightarrow> (string \<times> tag_stats) list" where
  "add_tag likes comments postDate tag m =
     (case map_get m (cleanTag tag) of
        Some current \<Rightarrow>
          map_set (cleanTag tag)
            \<lparr>count = count current + 1,
             totalLikes = fadd (totalLikes current) likes,
             totalComments = fadd (totalComments current) comments,
             firstUsed = (if postDate < firstUsed current then postDate else firstUsed current),
             lastUsed = (if postDate > lastUsed current then postDate else lastUsed current)\<rparr> m
      | None \<Rightarrow>
          map_set (cleanTag tag)
            \<lparr>count = 1, totalLikes = likes, totalComments = comments,
             firstUsed = postDate, lastUsed = postDate\<rparr> m)"

text \<open>\<^verbatim>\<open>post.hashtags || []\<close>\<close>

definition post_tags :: "media_post \<Rightarrow> string list" where
  "post_tags post = (case hashtags post of None \<Rightarrow> [] | Some hs \<Rightarrow> hs)"

text \<open>The body of \<^verbatim>\<open>media.forEach\<close>.\<close>

definition add_post :: "media_post \<Rightarrow> (string \<times> tag_stats) list \<Rightarrow> (string \<times> tag_stats) list" where
  "add_post post m =
     fold (add_tag (js_number (num_or (likes_count post) 0))
             (js_number (num_or (comments_count post) 0)) (timestamp post))
       (post_tags post) m"

definition hashtagStats :: "media_post list \<Rightarrow> (string \<times> tag_stats) list" where
  "hashtagStats media = fold add_post media []"

definition hashtagMetric :: "string \<Rightarrow> string \<Rightarrow> string \<times> tag_stats \<Rightarrow> hashtag_row" where
  "hashtagMetric profileId userId entry =
     (case entry of (tag, stats) \<Rightarrow>
        \<lparr>hashtag_profile_id = profileId, hashtag_user_id = userId, hashtag = tag,
         usage_count = count stats,
         total_engagement = fadd (totalLikes stats) (totalComments stats),
         avg_engagement =
           fdiv (fadd (totalLikes stats) (totalComments stats)) (js_number (int (count stats))),
         first_used = firstUsed stats, last_used = lastUsed stats\<rparr>)"

definition hashtagMetrics :: "string \<Rightarrow> string \<Rightarrow> media_post list \<Rightarrow> hashtag_row list" where
  "hashtagMetrics profileId userId media =
     map (hashtagMetric profileId userId) (hashtagStats media)"

text \<open>
  The insert loop in batches of 500: the record store refuses the batch starting at index
  \<open>i\<close> when \<open>insertError i\<close>; the error is logged and the loop goes on.
\<close>

definition HASHTAG_BATCH_SIZE :: nat where
  "HASHTAG_BATCH_SIZE = 500"

function insert_batches :: "(nat \<Rightarrow> bool) \<Rightarrow> nat \<Rightarrow> 'r list \<Rightarrow> 'r list \<Rightarrow> 'r list" where
  "insert_batches insertError i rows table =
     (if i < length rows then
        insert_batches insertError (i + HASHTAG_BATCH_SIZE) rows
          (if insertError i then table
           else table @ take HASHTAG_BATCH_SIZE (drop i rows))
      else table)"
  by pat_completeness auto
termination
  by (relation "measure (\<lambda>(e, i, rows, t). length rows - i)")
    (auto simp: HASHTAG_BATCH_SIZE_def)

declare insert_batches.simps [simp del]

text \<open>
  What the record store answers during one call.  \<open>profile_select\<close> is \<open>Inl m\<close> when
  the select of the profile fails or finds no row, with \<open>m\<close> the text of
  \<^verbatim>\<open>profileError?.message\<close>; \<open>media_select\<close> is \<open>None\<close> when the select of the
  media fails.
\<close>

record derive_env =
  profile_select :: "string + profile_row"
  media_select :: "media_post list option"
  insights_table :: "insight_row list"
  insights_select_ok :: bool
  today :: int
  insights_upsert_error :: "string option"
  hashtags_table :: "hashtag_row list"
  hashtags_delete_ok :: bool
  hashtags_insert_error :: "nat \<Rightarrow> bool"

record derive_result =
  insights_after :: "insight_row list"
  hashtags_after :: "hashtag_row list"

text \<open>The block \<^verbatim>\<open>if (media && media.length > 0) { ... }\<close>: the hashtag table afterwards.\<close>

definition recompute_hashtags :: "derive_env \<Rightarrow> string \<Rightarrow> string \<Rightarrow> hashtag_row list" where
  "recompute_hashtags env profileId userId =
     (case media_select env of
        None \<Rightarrow> hashtags_table env
      | Some media \<Rightarrow>
          if length media > 0 then
            (if length (hashtagMetrics profileId userId media) > 0 then
               insert_batches (hashtags_insert_error env) 0
                 (hashtagMetrics profileId userId media)
                 (if hashtags_delete_ok env then [] else hashtags_table env)
             else hashtags_table env)
          else hashtags_table env)"

definition deriveMetrics :: "derive_env \<Rightarrow> string \<Rightarrow> string \<Rightarrow> string + derive_result" where
  "deriveMetrics env profileId userId =
     (case profile_select env of
        Inl m \<Rightarrow> Inl (''Profile not found: '' @ m)
      | Inr profile \<Rightarrow>
          (case insights_upsert_error env of
             Some msg \<Rightarrow> Inl (''Failed to insert insights: '' @ msg)
           | None \<Rightarrow>
               Inr \<lparr>insights_after =
                      upsert_insight
                        (dailyInsight profileId userId (today env) profile (media_select env)
                           (previousInsights (insights_select_ok env) (insights_table env)))
                        (insights_table env),
                    hashtags_after = recompute_hashtags env profileId userId\<rparr>))"

text \<open>
  The hashtags that \<^verbatim>\<open>InstagramClient.scrapeMedia\<close> stores with a content item:
  \<^verbatim>\<open>(caption.match(/#\w+/g) || []).map(h => h.substring(1))\<close>.  A match is a \<open>#\<close>
  followed by the longest run of letters, digits and underscores, which is not empty; the
  matches are taken from left to right, do not overlap, and repeat when the caption
  repeats a tag.
\<close>

definition is_word_char :: "char \<Rightarrow> bool" where
  "is_word_char c =
     (c \<in> set ''abcdefghijklmnopqrstuvwxyzABCDEFGHIJKLMNOPQRSTUVWXYZ0123456789_'')"

function caption_matches :: "string \<Rightarrow> string list" where
  "caption_matches [] = []"
| "caption_matches (c # cs) =
     (if c = CHR ''#'' \<and> takeWhile is_word_char cs \<noteq> []
      then (c # takeWhile is_word_char cs) # caption_matches (dropWhile is_word_char cs)
      else caption_matches cs)"
  by pat_completeness auto
termination
  by (relation "measure length") (auto simp: length_dropWhile_le less_Suc_eq_le)

definition caption_hashtags :: "string \<Rightarrow> string list" where
  "caption_hashtags caption = map (drop 1) (caption_matches caption)"

text \<open>The examples of the specification.\<close>

definition example_post :: "string list \<Rightarrow> int \<Rightarrow> int \<Rightarrow> int \<Rightarrow> media_post" where
  "example_post tags likes comments ts =
     \<lparr>hashtags = Some tags, likes_count = Some likes, comments_count = Some comments,
      timestamp = ts\<rparr>"

definition example_media :: "media_post list" where
  "example_media = [example_post [''sun'', ''fun''] 10 2 1000, example_post [''sun''] 5 1 2000]"

definition example_env :: "int option \<Rightarrow> media_post list \<Rightarrow> insight_row list \<Rightarrow> hashtag_row list
    \<Rightarrow> derive_env" where
  "example_env fc media insights tags =
     \<lparr>profile_select = Inr \<lparr>profile_followers_count = fc, profile_following_count = Some 0\<rparr>,
      media_select = Some media, insights_table = insights, insights_select_ok = True,
      today = 20, insights_upsert_error = None, hashtags_table = tags,
      hashtags_delete_ok = True, hashtags_insert_error = (\<lambda>_. False)\<rparr>"

definition example_insight :: "int \<Rightarrow> int \<Rightarrow> insight_row" where
  "example_insight d fc =
     \<lparr>insight_profile_id = ''p'', insight_user_id = ''u'', date = d, followers_count = fc,
      followers_growth = 0, engagement_rate = Finite 0, reach = 0, impressions = 0\<rparr>"

definition example_old_tag :: hashtag_row where
  "example_old_tag =
     \<lparr>hashtag_profile_id = ''p'', hashtag_user_id = ''u'', hashtag = ''#old'', usage_count = 1,
      total_engagement = Finite 3, avg_engagement = Finite 3, first_used = 5, last_used = 5\<rparr>"

subsection \<open>Auxiliary notions for the statements\<close>



definition bearing :: "string \<Rightarrow> media_post list \<Rightarrow> media_post list" where
  "bearing t media = filter (\<lambda>post. t \<in> set (map cleanTag (post_tags post))) media"

definition post_likes :: "media_post \<Rightarrow> int" where
  "post_likes post = num_or (likes_count post) 0"

definition post_comments :: "media_post \<Rightarrow> int" where
  "post_comments post = num_or (comments_count post) 0"

definition occ_stats :: "(int \<times> int \<times> int) list \<Rightarrow> tag_stats" where
  "occ_stats os =
     \<lparr>count = length os, totalLikes = js_sum (map fst os),
      totalComments = js_sum (map (\<lambda>x. fst (snd x)) os),
      firstUsed = Min (set (map (\<lambda>x. snd (snd x)) os)),
      lastUsed = Max (set (map (\<lambda>x. snd (snd x)) os))\<rparr>"

definition represents :: "(string \<Rightarrow> (int \<times> int \<times> int) list) \<Rightarrow> (string \<times> tag_stats) list \<Rightarrow> bool" where
  "represents A m \<longleftrightarrow>
     (\<forall>t. map_of m t = (if A t = [] then None else Some (occ_stats (A t))))"

definition post_occs :: "string \<Rightarrow> media_post \<Rightarrow> (int \<times> int \<times> int) list" where
  "post_occs t post =
     map (\<lambda>_. (post_likes post, post_comments post, timestamp post))
       (filter (\<lambda>x. cleanTag x = t) (post_tags post))"

subsection \<open>The daily insight\<close>

lemma sum_list_abs_nonneg: "0 \<le> (\<Sum>m\<leftarrow>ms. \<bar>f m\<bar>)" for f :: "'a \<Rightarrow> int"
  by (induction ms) auto



lemma sum_list_abs_split:
  "(\<Sum>m\<leftarrow>ms. \<bar>f m\<bar> + \<bar>g m\<bar>) = (\<Sum>m\<leftarrow>ms. \<bar>f m\<bar>) + (\<Sum>m\<leftarrow>ms. \<bar>g m\<bar>)"
  for f g :: "'a \<Rightarrow> int"
  by (simp add: sum_list_addf)

lemma sum_list_abs_le: "\<bar>\<Sum>m\<leftarrow>ms. f m\<bar> \<le> (\<Sum>m\<leftarrow>ms. \<bar>f m\<bar>)" for f :: "'a \<Rightarrow> int"
  by (induction ms) auto


lemma find_upsert_insight:
  "find_first (\<lambda>x. date x = date r) (upsert_insight r table) = Some r"
  by (induction table) simp_all

lemma set_upsert_insight: "set (upsert_insight r table) \<subseteq> insert r (set table)"
  by (induction table) auto

lemma deriveMetrics_Inr:
  assumes "deriveMetrics env p u = Inr r"
  obtains prof where "profile_select env = Inr prof" "insights_upsert_error env = None"
    "insights_after r = upsert_insight
        (dailyInsight p u (today env) prof (media_select env)
           (previousInsights (insights_select_ok env) (insights_table env)))
        (insights_table env)"
    "hashtags_after r = recompute_hashtags env p u"
  using assms by (auto simp: deriveMetrics_def split: sum.splits option.splits)

lemma stored_insight:
  assumes "deriveMetrics env p u = Inr r" "profile_select env = Inr prof"
  shows "find_first (\<lambda>x. date x = today env) (insights_after r) =
     Some (dailyInsight p u (today env) prof (media_select env)
             (previousInsights (insights_select_ok env) (insights_table env)))"
proof -
  let ?row = "dailyInsight p u (today env) prof (media_select env)
             (previousInsights (insights_select_ok env) (insights_table env))"
  have d: "date ?row = today env" by (simp add: dailyInsight_def)
  from assms have "insights_after r = upsert_insight ?row (insights_table env)"
    by (auto elim!: deriveMetrics_Inr)
  then show ?thesis using find_upsert_insight[of ?row "insights_table env"] by (simp add: d)
qed




text \<open>
  Claim C10.  Whenever \<^verbatim>\<open>deriveMetrics\<close> returns, the table of daily insights holds a
  row for today with \<^verbatim>\<open>reach\<close> \<open>0\<close> and \<^verbatim>\<open>impressions\<close> \<open>0\<close>, and every other row of
  the table was there before: the upserted row has both fields \<open>0\<close>, whatever the inputs.
\<close>

theorem deriveMetrics_reach_impressions:
  "deriveMetrics env p u = Inr r \<Longrightarrow>
   \<exists>row. find_first (\<lambda>x. date x = today env) (insights_after r) = Some row
     \<and> reach row = 0 \<and> impressions row = 0
     \<and> set (insights_after r) \<subseteq> insert row (set (insights_table env))"
proof -
  assume a: "deriveMetrics env p u = Inr r"
  then obtain prof where prof: "profile_select env = Inr prof"
    and ia: "insights_after r = upsert_insight
        (dailyInsight p u (today env) prof (media_select env)
           (previousInsights (insights_select_ok env) (insights_table env)))
        (insights_table env)"
    by (auto elim!: deriveMetrics_Inr)
  let ?row = "dailyInsight p u (today env) prof (media_select env)
           (previousInsights (insights_select_ok env) (insights_table env))"
  have "find_first (\<lambda>x. date x = today env) (insights_after r) = Some ?row"
    by (rule stored_insight[OF a prof])
  moreover have "reach ?row = 0" "impressions ?row = 0" by (simp_all add: dailyInsight_def)
  moreover have "set (insights_after r) \<subseteq> insert ?row (set (insights_table env))"
    unfolding ia by (rule set_upsert_insight)
  ultimately show ?thesis by blast
qed

lemmas example_env_defs = example_env_def example_insight_def example_post_def
  example_old_tag_def example_media_def

theorem deriveMetrics_reach_impressions_witness:
  "\<exists>r. deriveMetrics (example_env (Some 1000) [] [example_insight 19 990] []) ''p'' ''u'' = Inr r
     \<and> map (\<lambda>x. (date x, followers_count x, reach x, impressions x)) (insights_after r) =
         [(19, 990, 0, 0), (20, 1000, 0, 0)]
     \<and> (\<exists>row. find_first (\<lambda>x. date x = 20) (insights_after r) = Some row
           \<and> reach row = 0 \<and> impressions row = 0)"
proof -
  let ?env = "example_env (Some 1000) [] [example_insight 19 990] []"
  have e: "deriveMetrics ?env ''p'' ''u'' =
     Inr \<lparr>insights_after = [example_insight 19 990,
            \<lparr>insight_profile_id = ''p'', insight_user_id = ''u'', date = 20,
             followers_count = 1000, followers_growth = 10, engagement_rate = Finite 0, reach = 0,
             impressions = 0\<rparr>], hashtags_after = []\<rparr>"
    by (simp add: deriveMetrics_def example_env_defs dailyInsight_def previousInsights_def
        followersGrowth_def previousFollowersCount_def followersCount_def num_or_def
        engagementRate_def postsCount_def recompute_hashtags_def)
  have t: "today ?env = 20" by (simp add: example_env_def)
  from deriveMetrics_reach_impressions[OF e] t show ?thesis
    unfolding e by (auto simp: example_insight_def)
qed

text \<open>
  The growth is the difference against the first row of \<^verbatim>\<open>previousInsights\<close> when that
  row records a count other than \<open>0\<close>, and \<open>0\<close> when there is no row.
\<close>

lemma followersGrowth_cases:
  "followersGrowth (Some (r # rs)) prof =
     (if followers_count r = 0 then 0 else followersCount prof - followers_count r)"
  "followersGrowth (Some []) prof = 0"
  "followersGrowth None prof = 0"
  by (simp_all add: followersGrowth_def previousFollowersCount_def num_or_def)

text \<open>
  Claim C9.  The profile has 5 followers and the most recent daily insight, of the day
  before, recorded 0 followers.  \<^verbatim>\<open>previousInsights?.[0]?.followers_count || followersCount\<close>
  takes the recorded \<open>0\<close> for a missing value and falls back to the current count: the
  stored growth is \<open>0\<close>, where the difference against the prior insight is \<open>5\<close>.
\<close>

theorem followers_growth_after_zero:
  "map_sum id (\<lambda>r. map (\<lambda>x. (date x, followers_count x, followers_growth x)) (insights_after r))
     (deriveMetrics (example_env (Some 5) [] [example_insight 19 0] []) ''p'' ''u'')
   = Inr [(19, 0, 0), (20, 5, 0)]"
  by (simp add: deriveMetrics_def example_env_defs dailyInsight_def previousInsights_def
      followersGrowth_def previousFollowersCount_def followersCount_def num_or_def)

lemma occ_stats_single: "occ_stats [(l, c, d)] =
  \<lparr>count = 1, totalLikes = js_number l, totalComments = js_number c, firstUsed = d,
   lastUsed = d\<rparr>"
  by (simp add: occ_stats_def js_sum_def)

subsection \<open>The hashtag statistics\<close>

lemma min_if: "min (d::int) m = (if d < m then d else m)"
  by (simp add: min_def)

lemma max_if: "max (d::int) m = (if d > m then d else m)"
  by (simp add: max_def)

lemma occ_stats_snoc:
  assumes "os \<noteq> []"
  shows "occ_stats (os @ [(l, c, d)]) =
    \<lparr>count = count (occ_stats os) + 1,
     totalLikes = fadd (totalLikes (occ_stats os)) (js_number l),
     totalComments = fadd (totalComments (occ_stats os)) (js_number c),
     firstUsed = (if d < firstUsed (occ_stats os) then d else firstUsed (occ_stats os)),
     lastUsed = (if d > lastUsed (occ_stats os) then d else lastUsed (occ_stats os))\<rparr>"
proof -
  let ?S = "(\<lambda>x. snd (snd x)) ` set os"
  have ne: "finite ?S" "?S \<noteq> {}" using assms by auto
  have a: "Min (insert d ?S) = (if d < Min ?S then d else Min ?S)"
    by (simp only: Min_insert[OF ne] min_if)
  have b: "Max (insert d ?S) = (if d > Max ?S then d else Max ?S)"
    by (simp only: Max_insert[OF ne] max_if)
  have l: "js_sum (map fst (os @ [(l, c, d)])) = fadd (js_sum (map fst os)) (js_number l)"
    using js_sum_snoc[of "map fst os" l] assms by simp
  have c: "js_sum (map (\<lambda>x. fst (snd x)) (os @ [(l, c, d)])) =
      fadd (js_sum (map (\<lambda>x. fst (snd x)) os)) (js_number c)"
    using js_sum_snoc[of "map (\<lambda>x. fst (snd x)) os" c] assms by simp
  have "set (map (\<lambda>x. snd (snd x)) (os @ [(l, c, d)])) = insert d ?S" by simp
  then show ?thesis
    unfolding occ_stats_def l c by (simp only: a b) simp
qed

lemma add_tag_represents:
  assumes "represents A m"
  shows "represents (A(cleanTag tag := A (cleanTag tag) @ [(l, c, d)]))
     (add_tag (js_number l) (js_number c) d tag m)"
proof (cases "A (cleanTag tag) = []")
  case True
  with assms have "map_of m (cleanTag tag) = None" by (simp add: represents_def)
  with assms True show ?thesis
    by (simp add: represents_def add_tag_def map_get_def map_of_map_set occ_stats_single)
next
  case False
  with assms have "map_of m (cleanTag tag) = Some (occ_stats (A (cleanTag tag)))"
    by (simp add: represents_def)
  with assms False show ?thesis
    by (simp add: represents_def add_tag_def map_get_def map_of_map_set occ_stats_snoc)
qed

lemma fold_add_tag_represents:
  "represents A m \<Longrightarrow>
   represents (\<lambda>t. A t @ map (\<lambda>_. (l, c, d)) (filter (\<lambda>x. cleanTag x = t) tags))
     (fold (add_tag (js_number l) (js_number c) d) tags m)"
proof (induction tags arbitrary: A m)
  case Nil
  then show ?case by simp
next
  case (Cons tag tags)
  let ?A = "A(cleanTag tag := A (cleanTag tag) @ [(l, c, d)])"
  have "represents (\<lambda>t. ?A t @ map (\<lambda>_. (l, c, d)) (filter (\<lambda>x. cleanTag x = t) tags))
     (fold (add_tag (js_number l) (js_number c) d) tags
        (add_tag (js_number l) (js_number c) d tag m))"
    by (rule Cons.IH) (rule add_tag_represents[OF Cons.prems])
  moreover have "(\<lambda>t. ?A t @ map (\<lambda>_. (l, c, d)) (filter (\<lambda>x. cleanTag x = t) tags)) =
    (\<lambda>t. A t @ map (\<lambda>_. (l, c, d)) (filter (\<lambda>x. cleanTag x = t) (tag # tags)))"
    by (auto simp: fun_eq_iff)
  ultimately show ?case by simp
qed

lemma add_post_represents:
  "represents A m \<Longrightarrow> represents (\<lambda>t. A t @ post_occs t post) (add_post post m)"
  unfolding add_post_def post_occs_def post_likes_def post_comments_def
  by (rule fold_add_tag_represents)

lemma fold_add_post_represents:
  "represents A m \<Longrightarrow>
   represents (\<lambda>t. A t @ concat (map (post_occs t) media)) (fold add_post media m)"
proof (induction media arbitrary: A m)
  case Nil
  then show ?case by simp
next
  case (Cons post media)
  have "represents (\<lambda>t. (A t @ post_occs t post) @ concat (map (post_occs t) media))
     (fold add_post media (add_post post m))"
    by (rule Cons.IH) (rule add_post_represents[OF Cons.prems])
  then show ?case by simp
qed

lemma hashtagStats_represents:
  "represents (\<lambda>t. concat (map (post_occs t) media)) (hashtagStats media)"
proof -
  have "represents (\<lambda>t. []) []" by (simp add: represents_def)
  from fold_add_post_represents[OF this, of media] show ?thesis
    by (simp add: hashtagStats_def)
qed

lemma filter_eq_once:
  "count_list (map f xs) t \<le> 1 \<Longrightarrow>
   map (\<lambda>_. c) (filter (\<lambda>x. f x = t) xs) = (if t \<in> set (map f xs) then [c] else [])"
proof (induction xs)
  case Nil
  then show ?case by simp
next
  case (Cons x xs)
  show ?case
  proof (cases "f x = t")
    case True
    with Cons.prems have "count_list (map f xs) t = 0" by simp
    then have "t \<notin> set (map f xs)" by (simp add: count_list_0_iff)
    then have "filter (\<lambda>x. f x = t) xs = []" by (auto simp: filter_empty_conv)
    with True show ?thesis by simp
  next
    case False
    with Cons show ?thesis by auto
  qed
qed

lemma occs_bearing:
  assumes "\<forall>post\<in>set media. count_list (map cleanTag (post_tags post)) t \<le> 1"
  shows "concat (map (post_occs t) media) =
     map (\<lambda>post. (post_likes post, post_comments post, timestamp post)) (bearing t media)"
  using assms
proof (induction media)
  case Nil
  then show ?case by (simp add: bearing_def)
next
  case (Cons post media)
  have "post_occs t post =
      (if t \<in> set (map cleanTag (post_tags post))
       then [(post_likes post, post_comments post, timestamp post)] else [])"
    unfolding post_occs_def using Cons.prems by (intro filter_eq_once) simp
  with Cons show ?case by (simp add: bearing_def)
qed

lemma find_first_rows:
  "find_first (\<lambda>x. hashtag x = t) (map (hashtagMetric p u) m) =
     map_option (\<lambda>s. hashtagMetric p u (t, s)) (map_of m t)"
  by (induction m) (auto simp: hashtagMetric_def)

lemma add_tag_distinct: "distinct (map fst m) \<Longrightarrow> distinct (map fst (add_tag l c d tag m))"
  by (auto simp: add_tag_def distinct_map_set split: option.splits)

lemma fold_add_tag_distinct:
  "distinct (map fst m) \<Longrightarrow> distinct (map fst (fold (add_tag l c d) tags m))"
  by (induction tags arbitrary: m) (simp_all add: add_tag_distinct)

lemma fold_add_post_distinct:
  "distinct (map fst m) \<Longrightarrow> distinct (map fst (fold add_post media m))"
  by (induction media arbitrary: m) (simp_all add: add_post_def fold_add_tag_distinct)

lemma hashtagMetrics_distinct: "distinct (map hashtag (hashtagMetrics p u media))"
proof -
  have "map hashtag (hashtagMetrics p u media) = map fst (hashtagStats media)"
    by (auto simp: hashtagMetrics_def hashtagMetric_def)
  then show ?thesis by (simp add: hashtagStats_def fold_add_post_distinct)
qed

lemma hashtagMetrics_row:
  assumes "\<forall>post\<in>set media. count_list (map cleanTag (post_tags post)) t \<le> 1"
  shows "find_first (\<lambda>x. hashtag x = t) (hashtagMetrics p u media) =
     (if bearing t media = [] then None
      else Some \<lparr>hashtag_profile_id = p, hashtag_user_id = u, hashtag = t,
             usage_count = length (bearing t media),
             total_engagement =
               fadd (js_sum (map post_likes (bearing t media)))
                 (js_sum (map post_comments (bearing t media))),
             avg_engagement =
               fdiv
                 (fadd (js_sum (map post_likes (bearing t media)))
                    (js_sum (map post_comments (bearing t media))))
                 (js_number (int (length (bearing t media)))),
             first_used = Min (timestamp ` set (bearing t media)),
             last_used = Max (timestamp ` set (bearing t media))\<rparr>)"
proof -
  let ?bs = "bearing t media"
  let ?os = "map (\<lambda>post. (post_likes post, post_comments post, timestamp post)) ?bs"
  have e: "concat (map (post_occs t) media) = ?os" by (rule occs_bearing[OF assms])
  have "map_of (hashtagStats media) t =
      (if concat (map (post_occs t) media) = [] then None
       else Some (occ_stats (concat (map (post_occs t) media))))"
    using hashtagStats_represents[of media] unfolding represents_def by blast
  then have m: "map_of (hashtagStats media) t =
      (if ?bs = [] then None else Some (occ_stats ?os))"
    unfolding e by simp
  have o: "occ_stats ?os =
    \<lparr>count = length ?bs, totalLikes = js_sum (map post_likes ?bs),
     totalComments = js_sum (map post_comments ?bs),
     firstUsed = Min (timestamp ` set ?bs), lastUsed = Max (timestamp ` set ?bs)\<rparr>"
    by (simp add: occ_stats_def comp_def image_image)
  show ?thesis
    unfolding hashtagMetrics_def find_first_rows m o
    by (simp add: hashtagMetric_def)
qed

lemma tag_total_exact:
  assumes "(\<Sum>post\<leftarrow>bs. \<bar>post_likes post\<bar> + \<bar>post_comments post\<bar>) < 2 ^ 53"
  shows "fadd (js_sum (map post_likes bs)) (js_sum (map post_comments bs)) =
     Finite (of_int (\<Sum>post\<leftarrow>bs. post_likes post + post_comments post))"
proof -
  let ?L = "\<Sum>m\<leftarrow>bs. post_likes m" and ?C = "\<Sum>m\<leftarrow>bs. post_comments m"
  note s = assms[unfolded sum_list_abs_split]
  note pl = sum_list_abs_nonneg[of post_likes bs] and pc = sum_list_abs_nonneg[of post_comments bs]
  from s pl pc have bl: "sum_list (map abs (map post_likes bs)) < 2 ^ 53"
    and bc: "sum_list (map abs (map post_comments bs)) < 2 ^ 53" by (simp_all add: comp_def)
  have "\<bar>?L + ?C\<bar> \<le> (\<Sum>m\<leftarrow>bs. \<bar>post_likes m\<bar>) + (\<Sum>m\<leftarrow>bs. \<bar>post_comments m\<bar>)"
    using sum_list_abs_le[of post_likes bs] sum_list_abs_le[of post_comments bs] by simp
  with s have "\<bar>?L + ?C\<bar> < 2 ^ 53" by simp
  from fadd_exact[OF this] show ?thesis
    unfolding js_sum_exact[OF bl] js_sum_exact[OF bc] by (simp add: sum_list_addf)
qed

lemma insert_batches_ok:
  "\<forall>j. \<not> insertError j \<Longrightarrow> insert_batches insertError i rows table = table @ drop i rows"
proof (induction insertError i rows table rule: insert_batches.induct)
  case (1 insertError i rows table)
  show ?case
  proof (cases "i < length rows")
    case True
    have no: "\<not> insertError i" using "1.prems" by blast
    have step: "insert_batches insertError i rows table =
        insert_batches insertError (i + HASHTAG_BATCH_SIZE) rows
          (table @ take HASHTAG_BATCH_SIZE (drop i rows))"
      by (subst insert_batches.simps) (simp add: True no)
    have "take HASHTAG_BATCH_SIZE (drop i rows) @ drop (i + HASHTAG_BATCH_SIZE) rows = drop i rows"
      by (metis add.commute append_take_drop_id drop_drop)
    with step "1.IH"[OF True "1.prems"] no show ?thesis by simp
  next
    case False
    then show ?thesis by (subst insert_batches.simps) simp
  qed
qed

lemma hashtagStats_keys:
  "fst ` set (hashtagStats media) = (\<Union>post\<in>set media. cleanTag ` set (post_tags post))"
proof -
  have "\<And>t. (t \<in> fst ` set (hashtagStats media)) = (concat (map (post_occs t) media) \<noteq> [])"
    using hashtagStats_represents[of media]
    by (auto simp: represents_def dom_map_of_conv_image_fst[symmetric] dom_def)
  moreover have "\<And>t. (concat (map (post_occs t) media) \<noteq> []) =
     (t \<in> (\<Union>post\<in>set media. cleanTag ` set (post_tags post)))"
    by (auto simp: post_occs_def filter_empty_conv)
  ultimately show ?thesis by blast
qed

lemma hashtagMetrics_empty:
  "(hashtagMetrics p u media = []) = (\<forall>post\<in>set media. post_tags post = [])"
proof -
  have "(hashtagMetrics p u media = []) = (fst ` set (hashtagStats media) = {})"
    by (simp add: hashtagMetrics_def)
  then show ?thesis unfolding hashtagStats_keys by auto
qed

lemma recompute_hashtags_fresh:
  assumes "media_select env = Some media" "\<exists>post\<in>set media. post_tags post \<noteq> []"
    "hashtags_delete_ok env" "\<forall>j. \<not> hashtags_insert_error env j"
  shows "recompute_hashtags env p u = hashtagMetrics p u media"
proof -
  have ne: "hashtagMetrics p u media \<noteq> []" using assms(2) by (simp add: hashtagMetrics_empty)
  then have "media \<noteq> []" using assms(2) by auto
  with ne assms show ?thesis
    by (simp add: recompute_hashtags_def insert_batches_ok)
qed

lemma recompute_hashtags_kept:
  assumes "media_select env = None \<or>
     (\<exists>media. media_select env = Some media \<and> (\<forall>post\<in>set media. post_tags post = []))"
  shows "recompute_hashtags env p u = hashtags_table env"
  using assms by (auto simp: recompute_hashtags_def hashtagMetrics_empty)

lemma cleanTag_marked: "take 1 (cleanTag tag) = ''#''"
  by (cases tag) (simp_all add: cleanTag_def)

lemma hashtagMetrics_keys:
  "set (map hashtag (hashtagMetrics p u media)) =
     (\<Union>post\<in>set media. cleanTag ` set (post_tags post))"
proof -
  have "map hashtag (hashtagMetrics p u media) = map fst (hashtagStats media)"
    by (auto simp: hashtagMetrics_def hashtagMetric_def)
  then show ?thesis using hashtagStats_keys[of media] by simp
qed

lemma hashtagMetrics_marked:
  "list_all (\<lambda>x. take 1 (hashtag x) = ''#'') (hashtagMetrics p u media)"
proof -
  have "take 1 k = ''#''" if "k \<in> set (map hashtag (hashtagMetrics p u media))" for k
    using that unfolding hashtagMetrics_keys by (auto simp: cleanTag_marked simp del: One_nat_def)
  then show ?thesis by (simp add: list_all_iff)
qed

lemma cleanTag_examples:
  "cleanTag ''sun'' = ''#sun''" "cleanTag ''fun'' = ''#fun''"
  by (simp_all add: cleanTag_def)

lemma example_hashtags:
  "map (\<lambda>x. (hashtag x, usage_count x, total_engagement x, avg_engagement x, first_used x,
              last_used x)) (hashtagMetrics p u example_media) =
   [(''#sun'', 2, Finite 18, Finite 9, 1000, 2000),
    (''#fun'', 1, Finite 12, Finite 12, 1000, 1000)]"
  by (simp add: hashtagMetrics_def hashtagStats_def add_post_def add_tag_def post_tags_def
      cleanTag_examples map_get_def num_or_def hashtagMetric_def example_media_def
      example_post_def)

lemma caption_examples:
  "caption_hashtags ''Great day #sun #fun'' = [''sun'', ''fun'']"
  "caption_hashtags ''#sun again'' = [''sun'']"
  "caption_hashtags ''#sun #sun'' = [''sun'', ''sun'']"
  by (simp_all add: caption_hashtags_def is_word_char_def)

text \<open>
  Claim C8, as amended.  A run of \<^verbatim>\<open>deriveMetrics\<close> that returns, whose stored content
  items carry at least one hashtag, and whose delete and inserts the record store accepts,
  leaves exactly the freshly computed rows in the hashtag table; a run that finds no
  content item or no hashtag leaves the table as it was.  The fresh rows are keyed by the
  tags of the content items, each with a leading \<open>#\<close>, one row per tag.  For a tag that
  no content item lists twice, the row has as \<^verbatim>\<open>usage_count\<close> the number of content
  items bearing the tag, as \<^verbatim>\<open>total_engagement\<close> the sum of the likes of those items
  plus the sum of their comments, as \<^verbatim>\<open>avg_engagement\<close> the quotient of that total by
  the count, and as \<^verbatim>\<open>first_used\<close> and \<^verbatim>\<open>last_used\<close> the least and greatest timestamp
  of those items.  The sums and the quotient are those of JavaScript numbers; the total
  is the exact sum of likes plus comments as long as the counts sum to less than
  \<open>2 ^ 53\<close> in absolute value.  On the example of the specification, whose captions give
  the hashtags \<open>sun\<close>, \<open>fun\<close> and \<open>sun\<close>, the rows are \<open>#sun\<close> with 2, 18 and 9 and \<open>#fun\<close>
  with 1 and 12.
\<close>

theorem deriveMetrics_hashtags:
  "(deriveMetrics env p u = Inr r \<and> media_select env = Some media
      \<and> (\<exists>post\<in>set media. post_tags post \<noteq> [])
      \<and> hashtags_delete_ok env \<and> (\<forall>j. \<not> hashtags_insert_error env j) \<longrightarrow>
        hashtags_after r = hashtagMetrics p u media)
   \<and> (deriveMetrics env p u = Inr r
      \<and> (media_select env = None \<or>
          (\<exists>media'. media_select env = Some media' \<and> (\<forall>post\<in>set media'. post_tags post = [])))
      \<longrightarrow> hashtags_after r = hashtags_table env)
   \<and> distinct (map hashtag (hashtagMetrics p u media))
   \<and> set (map hashtag (hashtagMetrics p u media)) =
        (\<Union>post\<in>set media. cleanTag ` set (post_tags post))
   \<and> list_all (\<lambda>x. take 1 (hashtag x) = ''#'') (hashtagMetrics p u media)
   \<and> ((\<forall>post\<in>set media. count_list (map cleanTag (post_tags post)) t \<le> 1) \<longrightarrow>
        find_first (\<lambda>x. hashtag x = t) (hashtagMetrics p u media) =
          (if bearing t media = [] then None
           else Some \<lparr>hashtag_profile_id = p, hashtag_user_id = u, hashtag = t,
                  usage_count = length (bearing t media),
                  total_engagement =
                    fadd (js_sum (map post_likes (bearing t media)))
                      (js_sum (map post_comments (bearing t media))),
                  avg_engagement =
                    fdiv
                      (fadd (js_sum (map post_likes (bearing t media)))
                         (js_sum (map post_comments (bearing t media))))
                      (js_number (int (length (bearing t media)))),
                  first_used = Min (timestamp ` set (bearing t media)),
                  last_used = Max (timestamp ` set (bearing t media))\<rparr>))
   \<and> ((\<Sum>post\<leftarrow>bearing t media. \<bar>post_likes post\<bar> + \<bar>post_comments post\<bar>) < 2 ^ 53 \<longrightarrow>
        fadd (js_sum (map post_likes (bearing t media)))
          (js_sum (map post_comments (bearing t media))) =
        Finite (of_int (\<Sum>post\<leftarrow>bearing t media. post_likes post + post_comments post)))
   \<and> map (\<lambda>x. (hashtag x, usage_count x, total_engagement x, avg_engagement x, first_used x,
               last_used x)) (hashtagMetrics p u example_media) =
      [(''#sun'', 2, Finite 18, Finite 9, 1000, 2000),
       (''#fun'', 1, Finite 12, Finite 12, 1000, 1000)]
   \<and> map post_tags example_media =
      map caption_hashtags [''Great day #sun #fun'', ''#sun again'']"
proof -
  have a: "deriveMetrics env p u = Inr r \<and> media_select env = Some media
      \<and> (\<exists>post\<in>set media. post_tags post \<noteq> [])
      \<and> hashtags_delete_ok env \<and> (\<forall>j. \<not> hashtags_insert_error env j) \<longrightarrow>
        hashtags_after r = hashtagMetrics p u media"
  proof
    assume h: "deriveMetrics env p u = Inr r \<and> media_select env = Some media
      \<and> (\<exists>post\<in>set media. post_tags post \<noteq> [])
      \<and> hashtags_delete_ok env \<and> (\<forall>j. \<not> hashtags_insert_error env j)"
    then have "hashtags_after r = recompute_hashtags env p u"
      by (auto elim!: deriveMetrics_Inr)
    with h show "hashtags_after r = hashtagMetrics p u media"
      by (simp add: recompute_hashtags_fresh)
  qed
  have b: "deriveMetrics env p u = Inr r
      \<and> (media_select env = None \<or>
          (\<exists>media'. media_select env = Some media' \<and> (\<forall>post\<in>set media'. post_tags post = [])))
      \<longrightarrow> hashtags_after r = hashtags_table env"
  proof
    assume h: "deriveMetrics env p u = Inr r
      \<and> (media_select env = None \<or>
          (\<exists>media'. media_select env = Some media' \<and> (\<forall>post\<in>set media'. post_tags post = [])))"
    then have "hashtags_after r = recompute_hashtags env p u"
      by (auto elim!: deriveMetrics_Inr)
    with h show "hashtags_after r = hashtags_table env"
      by (simp add: recompute_hashtags_kept)
  qed
  have c: "(\<forall>post\<in>set media. count_list (map cleanTag (post_tags post)) t \<le> 1) \<longrightarrow>
        find_first (\<lambda>x. hashtag x = t) (hashtagMetrics p u media) =
          (if bearing t media = [] then None
           else Some \<lparr>hashtag_profile_id = p, hashtag_user_id = u, hashtag = t,
                  usage_count = length (bearing t media),
                  total_engagement =
                    fadd (js_sum (map post_likes (bearing t media)))
                      (js_sum (map post_comments (bearing t media))),
                  avg_engagement =
                    fdiv
                      (fadd (js_sum (map post_likes (bearing t media)))
                         (js_sum (map post_comments (bearing t media))))
                      (js_number (int (length (bearing t media)))),
                  first_used = Min (timestamp ` set (bearing t media)),
                  last_used = Max (timestamp ` set (bearing t media))\<rparr>)"
    using hashtagMetrics_row by blast
  have d: "map post_tags example_media =
      map caption_hashtags [''Great day #sun #fun'', ''#sun again'']"
    by (simp add: caption_examples example_media_def example_post_def post_tags_def)
  have e: "(\<Sum>post\<leftarrow>bearing t media. \<bar>post_likes post\<bar> + \<bar>post_comments post\<bar>) < 2 ^ 53 \<longrightarrow>
        fadd (js_sum (map post_likes (bearing t media)))
          (js_sum (map post_comments (bearing t media))) =
        Finite (of_int (\<Sum>post\<leftarrow>bearing t media. post_likes post + post_comments post))"
    using tag_total_exact by blast
  show ?thesis
    by (intro conjI a b hashtagMetrics_distinct hashtagMetrics_keys hashtagMetrics_marked c e
        example_hashtags d)
qed

theorem deriveMetrics_hashtags_witness:
  "\<exists>r. deriveMetrics (example_env (Some 1000) example_media [] [example_old_tag]) ''p'' ''u'' = Inr r
     \<and> list_ex (\<lambda>post. post_tags post \<noteq> []) example_media
     \<and> list_all (\<lambda>post. count_list (map cleanTag (post_tags post)) ''#sun'' \<le> 1) example_media
     \<and> hashtags_after r = hashtagMetrics ''p'' ''u'' example_media
     \<and> map hashtag (hashtags_after r) = [''#sun'', ''#fun'']
     \<and> map_option usage_count
         (find_first (\<lambda>x. hashtag x = ''#sun'') (hashtagMetrics ''p'' ''u'' example_media)) =
       Some (length (bearing ''#sun'' example_media))
     \<and> length (bearing ''#sun'' example_media) = 2
     \<and> (\<Sum>post\<leftarrow>bearing ''#sun'' example_media. \<bar>post_likes post\<bar> + \<bar>post_comments post\<bar>) < 2 ^ 53
     \<and> map_option total_engagement
         (find_first (\<lambda>x. hashtag x = ''#sun'') (hashtagMetrics ''p'' ''u'' example_media)) =
       Some (Finite 18)"
proof -
  let ?env = "example_env (Some 1000) example_media [] [example_old_tag]"
  obtain ins where e: "deriveMetrics ?env ''p'' ''u'' =
      Inr \<lparr>insights_after = ins, hashtags_after = recompute_hashtags ?env ''p'' ''u''\<rparr>"
    by (simp add: deriveMetrics_def example_env_def)
  let ?r = "\<lparr>insights_after = ins, hashtags_after = recompute_hashtags ?env ''p'' ''u''\<rparr>"
  have h1: "media_select ?env = Some example_media" "hashtags_delete_ok ?env"
    "\<forall>j. \<not> hashtags_insert_error ?env j"
    by (simp_all add: example_env_def)
  have h2: "\<exists>post\<in>set example_media. post_tags post \<noteq> []"
    by (simp add: example_media_def example_post_def post_tags_def)
  have h3: "\<forall>post\<in>set example_media. count_list (map cleanTag (post_tags post)) ''#sun'' \<le> 1"
    by (simp add: example_media_def example_post_def post_tags_def cleanTag_examples)
  have bs: "bearing ''#sun'' example_media = example_media"
    by (simp add: bearing_def example_media_def example_post_def post_tags_def
        cleanTag_examples del: set_map)
  have b: "bearing ''#sun'' example_media \<noteq> []" "length (bearing ''#sun'' example_media) = 2"
    unfolding bs by (simp_all add: example_media_def)
  have s: "(\<Sum>post\<leftarrow>bearing ''#sun'' example_media. \<bar>post_likes post\<bar> + \<bar>post_comments post\<bar>) = 18"
    "(\<Sum>post\<leftarrow>bearing ''#sun'' example_media. post_likes post + post_comments post) = 18"
    unfolding bs
    by (simp_all add: example_media_def example_post_def post_likes_def post_comments_def
        num_or_def)
  have h4: "(\<Sum>post\<leftarrow>bearing ''#sun'' example_media. \<bar>post_likes post\<bar> + \<bar>post_comments post\<bar>)
      < 2 ^ 53"
    unfolding s by simp
  note t = deriveMetrics_hashtags[where env = ?env and p = "''p''" and u = "''u''" and r = ?r
      and media = example_media and t = "''#sun''"]
  from t e h1 h2 have fresh: "hashtags_after ?r = hashtagMetrics ''p'' ''u'' example_media"
    by blast
  note rowt = t[THEN conjunct2, THEN conjunct2, THEN conjunct2, THEN conjunct2, THEN conjunct2,
      THEN conjunct1, THEN mp, OF h3]
  note tot = t[THEN conjunct2, THEN conjunct2, THEN conjunct2, THEN conjunct2, THEN conjunct2,
      THEN conjunct2, THEN conjunct1, THEN mp, OF h4]
  note rows = t[THEN conjunct2, THEN conjunct2, THEN conjunct2, THEN conjunct2, THEN conjunct2,
      THEN conjunct2, THEN conjunct2, THEN conjunct1]
  from rowt b(1) have row: "map_option usage_count
         (find_first (\<lambda>x. hashtag x = ''#sun'') (hashtagMetrics ''p'' ''u'' example_media)) =
       Some (length (bearing ''#sun'' example_media))"
    by simp
  from rowt b(1) have "map_option total_engagement
         (find_first (\<lambda>x. hashtag x = ''#sun'') (hashtagMetrics ''p'' ''u'' example_media)) =
       Some (fadd (js_sum (map post_likes (bearing ''#sun'' example_media)))
               (js_sum (map post_comments (bearing ''#sun'' example_media))))"
    by simp
  then have total: "map_option total_engagement
         (find_first (\<lambda>x. hashtag x = ''#sun'') (hashtagMetrics ''p'' ''u'' example_media)) =
       Some (Finite 18)"
    unfolding tot s by simp
  have names: "map hashtag (hashtagMetrics ''p'' ''u'' example_media) = [''#sun'', ''#fun'']"
  proof -
    from rows have "map fst (map (\<lambda>x. (hashtag x, usage_count x, total_engagement x,
        avg_engagement x, first_used x, last_used x)) (hashtagMetrics ''p'' ''u'' example_media)) =
      map fst [(''#sun'', 2::nat, Finite 18, Finite 9, 1000::int, 2000::int),
        (''#fun'', 1, Finite 12, Finite 12, 1000, 1000)]" by (rule arg_cong)
    then show ?thesis by (simp add: comp_def)
  qed
  have c1: "list_ex (\<lambda>post. post_tags post \<noteq> []) example_media"
    using h2 by (simp add: list_ex_iff)
  have c2: "list_all (\<lambda>post. count_list (map cleanTag (post_tags post)) ''#sun'' \<le> 1)
      example_media"
    using h3 by (simp add: list_all_iff)
  have c3: "map hashtag (hashtags_after ?r) = [''#sun'', ''#fun'']"
    using fresh names by (simp only:)
  show ?thesis
    by (rule exI[of _ ?r]) (intro conjI e c1 c2 fresh c3 row b(2) h4 total)
qed

text \<open>
  Claim C8 as stated fails: a run that finds no content item keeps the old hashtag row,
  where the freshly computed set is empty; a content item that lists \<open>sun\<close> twice, as the
  caption \<^verbatim>\<open>#sun #sun\<close> makes it, gives the tag a \<^verbatim>\<open>usage_count\<close> of 2 and counts its
  engagement twice, where one item bears the tag; and no row is keyed \<open>sun\<close>.
\<close>

theorem hashtags_recomputed_counterexample:
  "map_sum id hashtags_after
     (deriveMetrics (example_env (Some 1000) [] [] [example_old_tag]) ''p'' ''u'') =
     Inr [example_old_tag]
   \<and> hashtagMetrics ''p'' ''u'' [] = []
   \<and> map (\<lambda>x. (hashtag x, usage_count x, total_engagement x))
       (hashtagMetrics ''p'' ''u'' [example_post [''sun'', ''sun''] 10 2 1000]) =
     [(''#sun'', 2, Finite 24)]
   \<and> length (bearing ''#sun'' [example_post [''sun'', ''sun''] 10 2 1000]) = 1
   \<and> post_tags (example_post [''sun'', ''sun''] 10 2 1000) = caption_hashtags ''#sun #sun''
   \<and> find_first (\<lambda>x. hashtag x = ''sun'') (hashtagMetrics ''p'' ''u'' example_media) = None"
proof -
  have a: "map_sum id hashtags_after
     (deriveMetrics (example_env (Some 1000) [] [] [example_old_tag]) ''p'' ''u'') =
     Inr [example_old_tag]"
    by (simp add: deriveMetrics_def recompute_hashtags_def example_env_def)
  have b: "hashtagMetrics ''p'' ''u'' [] = []"
    by (simp add: hashtagMetrics_def hashtagStats_def)
  have c: "map (\<lambda>x. (hashtag x, usage_count x, total_engagement x))
       (hashtagMetrics ''p'' ''u'' [example_post [''sun'', ''sun''] 10 2 1000]) =
     [(''#sun'', 2, Finite 24)]"
    by (simp add: hashtagMetrics_def hashtagStats_def add_post_def add_tag_def post_tags_def
        cleanTag_examples map_get_def num_or_def hashtagMetric_def example_post_def)
  have d: "length (bearing ''#sun'' [example_post [''sun'', ''sun''] 10 2 1000]) = 1"
    by (simp add: bearing_def example_post_def post_tags_def cleanTag_examples)
  have e: "find_first (\<lambda>x. hashtag x = ''sun'') (hashtagMetrics ''p'' ''u'' example_media) = None"
    by (simp add: hashtagMetrics_def hashtagStats_def add_post_def add_tag_def post_tags_def
        cleanTag_examples map_get_def num_or_def hashtagMetric_def example_media_def
        example_post_def)
  have f: "post_tags (example_post [''sun'', ''sun''] 10 2 1000) = caption_hashtags ''#sun #sun''"
    by (simp add: caption_examples example_post_def post_tags_def)
  show ?thesis by (intro conjI a b c d f e)
qed

section \<open>Errors\<close>

text \<open>
  A thrown value is an \<^verbatim>\<open>AppError\<close> with its code and message, or another
  \<^verbatim>\<open>Error\<close> with its message.  The codes are the strings of \<^verbatim>\<open>ErrorCodes\<close>.
\<close>

datatype js_error = AppError string string | Error string

definition INVALID_INPUT :: string where "INVALID_INPUT = ''INVALID_INPUT''"
definition SESSION_EXPIRED :: string where "SESSION_EXPIRED = ''SESSION_EXPIRED''"
definition IG_LOGIN_FAILED :: string where "IG_LOGIN_FAILED = ''IG_LOGIN_FAILED''"
definition IG_2FA_REQUIRED :: string where "IG_2FA_REQUIRED = ''IG_2FA_REQUIRED''"
definition IG_SCRAPE_FAILED :: string where "IG_SCRAPE_FAILED = ''IG_SCRAPE_FAILED''"
definition DATABASE_ERROR :: string where "DATABASE_ERROR = ''DATABASE_ERROR''"
definition NOT_FOUND :: string where "NOT_FOUND = ''NOT_FOUND''"
definition INTERNAL_SERVER_ERROR :: string where "INTERNAL_SERVER_ERROR = ''INTERNAL_SERVER_ERROR''"

section \<open>InstagramClient.fetchUserListViaGraphQL\<close>

text \<open>
  A node of the response.  \<^verbatim>\<open>node.id || node.username\<close> and the other defaults read a
  missing field, an empty string and \<^verbatim>\<open>false\<close> as falsy.
\<close>

record gql_node =
  node_id :: "string option"
  node_username :: string
  node_full_name :: "string option"
  node_is_private :: "bool option"
  node_is_verified :: "bool option"
  node_profile_pic_url :: "string option"

definition nonempty :: "string option \<Rightarrow> string option" where
  "nonempty s = (case s of None \<Rightarrow> None | Some x \<Rightarrow> if x = [] then None else Some x)"

definition user_of_node :: "gql_node \<Rightarrow> ig_user" where
  "user_of_node node =
     \<lparr>ig_id = (case nonempty (node_id node) of Some i \<Rightarrow> i | None \<Rightarrow> node_username node),
      username = node_username node,
      full_name = nonempty (node_full_name node),
      is_private = (case node_is_private node of Some b \<Rightarrow> b | None \<Rightarrow> False),
      is_verified = (case node_is_verified node of Some b \<Rightarrow> b | None \<Rightarrow> False),
      profile_pic_url = nonempty (node_profile_pic_url node)\<rparr>"

text \<open>
  What one request yields: a failure (the \<^verbatim>\<open>fetch\<close> or the parsing of its body
  throws), or the edges with \<^verbatim>\<open>page_info.has_next_page || false\<close> and
  \<^verbatim>\<open>page_info.end_cursor\<close>, and whether the pause \<^verbatim>\<open>waitForTimeout(1500)\<close> made
  before the next request throws.  A body without the expected path yields no edge and
  an empty page info.  An edge is its node; an edge without a node makes \<^verbatim>\<open>node.id\<close>
  throw.
\<close>

datatype page = FetchFailed | Response "gql_node option list" bool "string option" bool

text \<open>
  The loop \<^verbatim>\<open>for (const edge of edges)\<close>: it pushes the users and stops when the count
  reaches \<open>maxCount\<close> (unless \<open>maxCount\<close> is \<open>-1\<close>), or when an edge throws.
\<close>

datatype for_exit = Completed | CapReached | Thrown

fun push_edges :: "int \<Rightarrow> ig_user list \<Rightarrow> gql_node option list \<Rightarrow> ig_user list \<times> for_exit" where
  "push_edges maxCount users [] = (users, Completed)"
| "push_edges maxCount users (edge # edges) =
     (case edge of
        None \<Rightarrow> (users, Thrown)
      | Some node \<Rightarrow>
          if maxCount \<noteq> -1 \<and> int (length (users @ [user_of_node node])) \<ge> maxCount
          then (users @ [user_of_node node], CapReached)
          else push_edges maxCount (users @ [user_of_node node]) edges)"



text \<open>Example servers: pages of two users each, and one that fails at the second request.\<close>

definition example_node :: "string \<Rightarrow> gql_node option" where
  "example_node i = Some \<lparr>node_id = Some i, node_username = i, node_full_name = None,
     node_is_private = None, node_is_verified = None, node_profile_pic_url = None\<rparr>"

definition example_server :: "nat \<Rightarrow> string option \<Rightarrow> page" where
  "example_server n cursor =
     (if n = 0 then Response [example_node ''a'', example_node ''b''] True (Some ''c1'') False
      else if n = 1 then Response [example_node ''c'', example_node ''d''] True (Some ''c2'') False
      else Response [example_node ''e''] False None False)"




subsection \<open>Where the loop stops\<close>


lemma push_edges_prefix:
  "push_edges maxCount users edges = (users', ex) \<Longrightarrow> \<exists>more. users' = users @ more"
proof (induction edges arbitrary: users)
  case Nil
  then show ?case by simp
next
  case (Cons e es)
  then show ?case by (fastforce split: option.splits if_splits)
qed








section \<open>The session payload\<close>

record cookie =
  cookie_name :: string
  cookie_value :: string
  cookie_domain :: string
  cookie_path :: string
  cookie_expires :: "rat option"
  cookie_httpOnly :: "bool option"
  cookie_secure :: "bool option"
  cookie_sameSite :: "string option"

record session_payload =
  cookies :: "cookie list"
  user_agent :: string
  payload_timestamp :: int

section \<open>The job table\<close>

datatype job_status = PENDING | RUNNING | COMPLETED | FAILED

text \<open>
  The fields of \<^verbatim>\<open>job.metadata\<close> that the worker reads.  The column is nullable:
  \<open>None\<close> is a row without metadata.
\<close>

record job_metadata =
  md_username :: "string option"
  md_password :: "string option"
  md_two_fa_code :: "string option"

record sync_job =
  job_id :: string
  job_profile_id :: string
  job_user_id :: string
  job_type :: string
  status :: job_status
  started_at :: "int option"
  finished_at :: "int option"
  processed_items :: nat
  error_message :: "string option"
  metadata :: "job_metadata option"
  created_at :: int

text \<open>
  \<^verbatim>\<open>.eq('status', 'PENDING').order('created_at', { ascending: true }).limit(1)\<close>: the
  pending job of the least creation time, the first such row of the table on a tie.
\<close>

fun oldest :: "sync_job list \<Rightarrow> sync_job option" where
  "oldest [] = None"
| "oldest (j # js) =
     (case oldest js of
        None \<Rightarrow> Some j
      | Some j' \<Rightarrow> if created_at j' < created_at j then Some j' else Some j)"

definition oldest_pending :: "sync_job list \<Rightarrow> sync_job option" where
  "oldest_pending table = oldest (filter (\<lambda>j. status j = PENDING) table)"

text \<open>\<^verbatim>\<open>.update(...).eq('id', id)\<close>\<close>

definition update_job :: "string \<Rightarrow> (sync_job \<Rightarrow> sync_job) \<Rightarrow> sync_job list \<Rightarrow> sync_job list" where
  "update_job i f table = map (\<lambda>j. if job_id j = i then f j else j) table"

text \<open>
  \<^verbatim>\<open>.insert(...)\<close>: the store gives the row its id and refuses an id that exists (the
  primary key); the worker does not look at the error of its inserts.
\<close>

definition insert_job :: "sync_job \<Rightarrow> sync_job list \<Rightarrow> sync_job list" where
  "insert_job j table = (if job_id j \<in> job_id ` set table then table else table @ [j])"

text \<open>
  \<^verbatim>\<open>getNextPendingJob\<close>.  \<open>select_error\<close> is an error of the select other than
  \<^verbatim>\<open>PGRST116\<close> (no rows), \<open>update_error\<close> an error of the update.  The result is the
  thrown error or the returned job (the row as selected), with the table afterwards.
\<close>

definition getNextPendingJob :: "string option \<Rightarrow> string option \<Rightarrow> int \<Rightarrow> sync_job list
    \<Rightarrow> (js_error + sync_job option) \<times> sync_job list" where
  "getNextPendingJob select_error update_error now table =
     (case select_error of
        Some msg \<Rightarrow>
          (Inl (AppError DATABASE_ERROR (''Failed to select pending job: '' @ msg)), table)
      | None \<Rightarrow>
          (case oldest_pending table of
             None \<Rightarrow> (Inr None, table)
           | Some job \<Rightarrow>
               (case update_error of
                  Some msg \<Rightarrow>
                    (Inl (AppError DATABASE_ERROR (''Failed to mark job as RUNNING: '' @ msg)),
                     table)
                | None \<Rightarrow>
                    (Inr (Some job),
                     update_job (job_id job)
                       (\<lambda>j. j\<lparr>status := RUNNING, started_at := Some now\<rparr>) table))))"

definition status_name :: "job_status \<Rightarrow> string" where
  "status_name s = (case s of PENDING \<Rightarrow> ''PENDING'' | RUNNING \<Rightarrow> ''RUNNING''
     | COMPLETED \<Rightarrow> ''COMPLETED'' | FAILED \<Rightarrow> ''FAILED'')"

text \<open>\<^verbatim>\<open>updateJobStatus\<close>: the thrown error, if any, and the table afterwards.\<close>

definition updateJobStatus :: "string option \<Rightarrow> int \<Rightarrow> string \<Rightarrow> job_status \<Rightarrow> nat
    \<Rightarrow> string option \<Rightarrow> sync_job list \<Rightarrow> js_error option \<times> sync_job list" where
  "updateJobStatus update_error now jobId st processedItems errorMessage table =
     (case update_error of
        Some msg \<Rightarrow>
          (Some (AppError DATABASE_ERROR
                   (''Failed to update job status to '' @ status_name st @ '': '' @ msg)),
           table)
      | None \<Rightarrow>
          (None,
           update_job jobId
             (\<lambda>j. j\<lparr>status := st, finished_at := Some now, processed_items := processedItems,
                    error_message := errorMessage\<rparr>) table))"

section \<open>InstagramClient: the browser and the login\<close>

text \<open>
  The client is modelled by whether \<^verbatim>\<open>this.browser\<close> holds an open browser.
  \<^verbatim>\<open>initBrowser\<close> succeeds, or throws with the browser launched or not.
  \<^verbatim>\<open>close\<close> does nothing without a browser; closing can throw, and the browser then
  stays assigned.
\<close>

datatype init_outcome = InitOk | InitFailed js_error bool

definition initBrowser :: "init_outcome \<Rightarrow> bool \<Rightarrow> js_error option \<times> bool" where
  "initBrowser init browser =
     (case init of
        InitOk \<Rightarrow> (None, True)
      | InitFailed e launched \<Rightarrow> (Some e, if launched then True else browser))"

definition close :: "string option \<Rightarrow> bool \<Rightarrow> js_error option \<times> bool" where
  "close close_error browser =
     (if browser then
        (case close_error of Some msg \<Rightarrow> (Some (Error msg), True) | None \<Rightarrow> (None, False))
      else (None, browser))"

text \<open>\<^verbatim>\<open>!s\<close> on an optional string: \<^verbatim>\<open>undefined\<close> and the empty string are falsy.\<close>

definition falsy :: "string option \<Rightarrow> bool" where
  "falsy s = (case s of None \<Rightarrow> True | Some x \<Rightarrow> x = [])"

definition is_space :: "char \<Rightarrow> bool" where
  "is_space c = (c = CHR '' '' \<or> c = CHR 0x09 \<or> c = CHR 0x0A \<or> c = CHR 0x0D)"

definition trim :: "string \<Rightarrow> string" where
  "trim s = rev (dropWhile is_space (rev (dropWhile is_space s)))"

text \<open>
  What the browser automation meets during one login: an \<^verbatim>\<open>Error\<close> thrown while
  navigating and submitting the credentials; whether the second-factor prompt is detected;
  an \<^verbatim>\<open>Error\<close> thrown while waiting for the manual completion; whether the manual
  completion is detected within the ten minutes; an \<^verbatim>\<open>Error\<close> thrown while entering
  the code; whether the markers of the authenticated home become
  visible; the text of the inline error; an \<^verbatim>\<open>Error\<close> thrown while dismissing the
  prompt; and what \<^verbatim>\<open>getSessionPayload\<close> yields.
\<close>

record login_world =
  lw_init :: init_outcome
  lw_submit_error :: "string option"
  lw_2fa_required :: bool
  lw_wait_error :: "string option"
  lw_manual_completed :: bool
  lw_code_error :: "string option"
  lw_logged_in :: bool
  lw_error_text :: "string option"
  lw_prompt_error :: "string option"
  lw_payload :: "js_error + session_payload"

text \<open>Steps 3 and 4 of the \<^verbatim>\<open>try\<close> block of \<^verbatim>\<open>login\<close>.\<close>

definition login_check :: "login_world \<Rightarrow> js_error option" where
  "login_check lw =
     (if \<not> lw_logged_in lw then
        (case lw_error_text lw of
           None \<Rightarrow> Some (AppError IG_LOGIN_FAILED ''Login failed for an unknown reason.'')
         | Some errorText \<Rightarrow>
             if errorText = []
             then Some (AppError IG_LOGIN_FAILED ''Login failed for an unknown reason.'')
             else Some (AppError IG_LOGIN_FAILED (''Login failed: '' @ trim errorText)))
      else (case lw_prompt_error lw of Some msg \<Rightarrow> Some (Error msg) | None \<Rightarrow> None))"

text \<open>The \<^verbatim>\<open>try\<close> block of \<^verbatim>\<open>login\<close>: the error it throws, if any.\<close>

definition login_try :: "login_world \<Rightarrow> string option \<Rightarrow> js_error option" where
  "login_try lw twoFaCode =
     (case lw_submit_error lw of
        Some msg \<Rightarrow> Some (Error msg)
      | None \<Rightarrow>
          if lw_2fa_required lw then
            (if falsy twoFaCode then
               (case lw_wait_error lw of
                  Some msg \<Rightarrow> Some (Error msg)
                | None \<Rightarrow>
                    if \<not> lw_manual_completed lw
                    then Some (AppError IG_2FA_REQUIRED
                                 ''2FA was not completed within 10 minutes.'')
                    else login_check lw)
             else
               (case lw_code_error lw of
                  Some msg \<Rightarrow> Some (Error msg)
                | None \<Rightarrow> login_check lw))
          else login_check lw)"

text \<open>
  \<^verbatim>\<open>login\<close>: the thrown error or the payload, and the browser afterwards.  The
  \<^verbatim>\<open>catch\<close> block closes the browser unless the error is an \<^verbatim>\<open>AppError\<close> with the
  code \<^verbatim>\<open>IG_2FA_REQUIRED\<close>, and wraps an error that is not an \<^verbatim>\<open>AppError\<close>.
\<close>

definition login :: "login_world \<Rightarrow> string option \<Rightarrow> string option \<Rightarrow> bool
    \<Rightarrow> (js_error + session_payload) \<times> bool" where
  "login lw close_error twoFaCode browser =
     (case initBrowser (lw_init lw) browser of
        (Some e, b) \<Rightarrow> (Inl e, b)
      | (None, b) \<Rightarrow>
          (case login_try lw twoFaCode of
             None \<Rightarrow> (lw_payload lw, b)
           | Some error \<Rightarrow>
               if (case error of AppError code _ \<Rightarrow> code = IG_2FA_REQUIRED | Error _ \<Rightarrow> False)
               then (Inl error, b)
               else
                 (case close close_error b of
                    (Some ce, b') \<Rightarrow> (Inl ce, b')
                  | (None, b') \<Rightarrow>
                      (case error of
                         AppError _ _ \<Rightarrow> (Inl error, b')
                       | Error _ \<Rightarrow>
                           (Inl (AppError IG_LOGIN_FAILED
                                   ''An unexpected error occurred during login.''), b')))))"

section \<open>The worker: processJob\<close>

text \<open>
  What the collaborators answer during one job.  Each field stands for one awaited call of
  the \<^verbatim>\<open>switch\<close> in \<^verbatim>\<open>processJob\<close>: \<open>Some e\<close> or \<open>Inl e\<close> when the call throws
  \<open>e\<close>.  \<open>w_session\<close> is the result of \<^verbatim>\<open>getDecryptedSession\<close> (\<open>Inr None\<close>: no
  valid session), \<open>w_profile\<close> whether the select of the profile finds it,
  \<open>w_check_session\<close> the outcome of the check of the restored session,
  \<open>w_new_ids\<close> the ids the store gives to the inserted follow-up jobs, \<open>w_now\<close> the
  time.  The scraping calls are answered by their result only.
\<close>

record world =
  w_login :: login_world
  w_init :: init_outcome
  w_close_error :: "string option"
  w_save_session :: "js_error option"
  w_update_profile_state :: "string \<Rightarrow> js_error option"
  w_new_ids :: "string list"
  w_session :: "js_error + session_payload option"
  w_check_session :: bool
  w_profile :: bool
  w_scrape_profile :: "js_error option"
  w_profile_update_error :: bool
  w_scrape_followers :: "js_error option"
  w_sync_followers :: "js_error + nat"
  w_scrape_media :: "js_error option"
  w_sync_media :: "js_error + nat"
  w_derive_metrics :: "js_error option"
  w_job_update_error :: "string option"
  w_now :: int

text \<open>What the \<^verbatim>\<open>switch\<close> leaves: the thrown error or the processed items, the browser, the table.\<close>

record handled =
  outcome :: "js_error + nat"
  browser_after :: bool
  table_after :: "sync_job list"

definition throws :: "js_error \<Rightarrow> bool \<Rightarrow> sync_job list \<Rightarrow> handled" where
  "throws e browser table = \<lparr>outcome = Inl e, browser_after = browser, table_after = table\<rparr>"

text \<open>The four jobs inserted after a login, in the order of the source.\<close>

definition follow_up_types :: "string list" where
  "follow_up_types = [''SYNC_PROFILE'', ''SYNC_FOLLOWERS'', ''SYNC_MEDIA'', ''DERIVE_METRICS'']"

definition new_job :: "sync_job \<Rightarrow> int \<Rightarrow> string \<times> string \<Rightarrow> sync_job" where
  "new_job job now entry =
     (case entry of (new_id, ty) \<Rightarrow>
        \<lparr>job_id = new_id, job_profile_id = job_profile_id job, job_user_id = job_user_id job,
         job_type = ty, status = PENDING, started_at = None, finished_at = None,
         processed_items = 0, error_message = None,
         metadata = Some \<lparr>md_username = None, md_password = None, md_two_fa_code = None\<rparr>,
         created_at = now\<rparr>)"

definition enqueue_follow_ups :: "world \<Rightarrow> sync_job \<Rightarrow> sync_job list \<Rightarrow> sync_job list" where
  "enqueue_follow_ups w job table =
     fold (\<lambda>entry t. insert_job (new_job job (w_now w) entry) t)
       (zip (w_new_ids w) follow_up_types) table"

text \<open>
  The case \<^verbatim>\<open>LOGIN\<close>.  Destructuring a metadata that is \<^verbatim>\<open>null\<close> throws a
  \<^verbatim>\<open>TypeError\<close>; its message is the one of the runtime, here that of V8.
\<close>

definition null_metadata_message :: string where
  "null_metadata_message =
     ''Cannot destructure property 'username' of 'job.metadata' as it is null.''"

definition handle_login :: "world \<Rightarrow> sync_job \<Rightarrow> bool \<Rightarrow> sync_job list \<Rightarrow> handled" where
  "handle_login w job browser table =
     (case metadata job of
        None \<Rightarrow> throws (Error null_metadata_message) browser table
      | Some md \<Rightarrow>
          if falsy (md_username md) \<or> falsy (md_password md) then
            throws (AppError INVALID_INPUT ''Missing username or password in job metadata.'')
              browser table
          else
            (case login (w_login w) (w_close_error w) (md_two_fa_code md) browser of
               (Inl e, b) \<Rightarrow> throws e b table
             | (Inr sessionPayload, b) \<Rightarrow>
                 (case w_save_session w of
                    Some e \<Rightarrow> throws e b table
                  | None \<Rightarrow>
                      (case w_update_profile_state w ''CONNECTED'' of
                         Some e \<Rightarrow> throws e b table
                       | None \<Rightarrow>
                           \<lparr>outcome = Inr 0, browser_after = b,
                            table_after = enqueue_follow_ups w job table\<rparr>))))"

definition handle_reconnect :: "world \<Rightarrow> sync_job \<Rightarrow> bool \<Rightarrow> sync_job list \<Rightarrow> handled" where
  "handle_reconnect w job browser table =
     (case w_session w of
        Inl e \<Rightarrow> throws e browser table
      | Inr None \<Rightarrow>
          throws (AppError SESSION_EXPIRED ''No valid session found for reconnection.'')
            browser table
      | Inr (Some sessionPayload) \<Rightarrow>
          (case initBrowser (w_init w) browser of
             (Some e, b) \<Rightarrow> throws e b table
           | (None, b) \<Rightarrow>
               if \<not> w_check_session w then
                 (case w_update_profile_state w ''EXPIRED'' of
                    Some e \<Rightarrow> throws e b table
                  | None \<Rightarrow>
                      throws (AppError SESSION_EXPIRED
                                ''Session check failed. Session is expired.'') b table)
               else \<lparr>outcome = Inr 0, browser_after = b, table_after = table\<rparr>))"

text \<open>
  The common start of the three scraping cases: the profile, the session, the browser.
  \<open>what\<close> is the word of the message.  The result is the thrown error or the browser.
\<close>

definition open_session :: "world \<Rightarrow> string \<Rightarrow> bool \<Rightarrow> js_error option \<times> bool" where
  "open_session w what browser =
     (if \<not> w_profile w then (Some (AppError NOT_FOUND ''Profile not found.''), browser)
      else
        (case w_session w of
           Inl e \<Rightarrow> (Some e, browser)
         | Inr None \<Rightarrow>
             (case w_update_profile_state w ''EXPIRED'' of
                Some e \<Rightarrow> (Some e, browser)
              | None \<Rightarrow>
                  (Some (AppError SESSION_EXPIRED
                           (''Session expired. Cannot sync '' @ what @ ''.'')), browser))
         | Inr (Some sessionPayload) \<Rightarrow> initBrowser (w_init w) browser))"

definition handle_sync_profile :: "world \<Rightarrow> sync_job \<Rightarrow> bool \<Rightarrow> sync_job list \<Rightarrow> handled" where
  "handle_sync_profile w job browser table =
     (case open_session w ''profile'' browser of
        (Some e, b) \<Rightarrow> throws e b table
      | (None, b) \<Rightarrow>
          (case w_scrape_profile w of
             Some e \<Rightarrow> throws e b table
           | None \<Rightarrow>
               if w_profile_update_error w
               then throws (AppError DATABASE_ERROR ''Failed to save profile data'') b table
               else \<lparr>outcome = Inr 1, browser_after = b, table_after = table\<rparr>))"

definition handle_sync_followers :: "world \<Rightarrow> sync_job \<Rightarrow> bool \<Rightarrow> sync_job list \<Rightarrow> handled" where
  "handle_sync_followers w job browser table =
     (case open_session w ''followers'' browser of
        (Some e, b) \<Rightarrow> throws e b table
      | (None, b) \<Rightarrow>
          (case w_scrape_followers w of
             Some e \<Rightarrow> throws e b table
           | None \<Rightarrow>
               (case w_sync_followers w of
                  Inl e \<Rightarrow> throws e b table
                | Inr n \<Rightarrow> \<lparr>outcome = Inr n, browser_after = b, table_after = table\<rparr>)))"

definition handle_sync_media :: "world \<Rightarrow> sync_job \<Rightarrow> bool \<Rightarrow> sync_job list \<Rightarrow> handled" where
  "handle_sync_media w job browser table =
     (case open_session w ''media'' browser of
        (Some e, b) \<Rightarrow> throws e b table
      | (None, b) \<Rightarrow>
          (case w_scrape_media w of
             Some e \<Rightarrow> throws e b table
           | None \<Rightarrow>
               (case w_sync_media w of
                  Inl e \<Rightarrow> throws e b table
                | Inr n \<Rightarrow> \<lparr>outcome = Inr n, browser_after = b, table_after = table\<rparr>)))"

definition handle_derive_metrics :: "world \<Rightarrow> sync_job \<Rightarrow> bool \<Rightarrow> sync_job list \<Rightarrow> handled" where
  "handle_derive_metrics w job browser table =
     (case w_derive_metrics w of
        Some e \<Rightarrow> throws e browser table
      | None \<Rightarrow> \<lparr>outcome = Inr 1, browser_after = browser, table_after = table\<rparr>)"

text \<open>The \<^verbatim>\<open>switch (job.job_type)\<close>.\<close>

definition handler :: "world \<Rightarrow> sync_job \<Rightarrow> bool \<Rightarrow> sync_job list \<Rightarrow> handled" where
  "handler w job browser table =
     (if job_type job = ''LOGIN'' then handle_login w job browser table
      else if job_type job = ''RECONNECT'' then handle_reconnect w job browser table
      else if job_type job = ''SYNC_PROFILE'' then handle_sync_profile w job browser table
      else if job_type job = ''SYNC_FOLLOWERS'' then handle_sync_followers w job browser table
      else if job_type job = ''SYNC_MEDIA'' then handle_sync_media w job browser table
      else if job_type job = ''DERIVE_METRICS'' then handle_derive_metrics w job browser table
      else throws (AppError INVALID_INPUT (''Unknown job type: '' @ job_type job))
             browser table)"

text \<open>\<^verbatim>\<open>s.includes(t)\<close>\<close>

fun starts_with :: "string \<Rightarrow> string \<Rightarrow> bool" where
  "starts_with s [] = True"
| "starts_with [] (c # t) = False"
| "starts_with (a # s) (c # t) = (a = c \<and> starts_with s t)"

fun str_includes :: "string \<Rightarrow> string \<Rightarrow> bool" where
  "str_includes [] t = (t = [])"
| "str_includes (a # s) t = (starts_with (a # s) t \<or> str_includes s t)"

text \<open>
  The \<^verbatim>\<open>catch\<close> block: the message, and the error thrown by the update of the profile
  state, if any.
\<close>

definition errorMessage_of :: "js_error \<Rightarrow> string" where
  "errorMessage_of error =
     (case error of
        AppError code message \<Rightarrow> code @ '': '' @ message
      | Error message \<Rightarrow> ''Internal Error: '' @ message)"

definition catch_block :: "world \<Rightarrow> js_error \<Rightarrow> js_error option" where
  "catch_block w error =
     (case error of
        AppError code message \<Rightarrow>
          if code = IG_2FA_REQUIRED then w_update_profile_state w ''NEEDS_2FA''
          else if code = SESSION_EXPIRED then w_update_profile_state w ''EXPIRED''
          else None
      | Error message \<Rightarrow> None)"

text \<open>
  \<^verbatim>\<open>processJob\<close>: the error it throws, if any; whether \<^verbatim>\<open>close\<close> was called;
  whether \<^verbatim>\<open>updateJobStatus\<close> was called; the browser and the table afterwards.  In
  the \<^verbatim>\<open>finally\<close> block a throwing \<^verbatim>\<open>close\<close> skips the update of the job; an error
  of the \<^verbatim>\<open>finally\<close> block replaces one of the \<^verbatim>\<open>catch\<close> block.
\<close>

record processed =
  thrown :: "js_error option"
  close_called :: bool
  update_called :: bool
  browser_left :: bool
  jobs_after :: "sync_job list"

definition processJob :: "world \<Rightarrow> sync_job \<Rightarrow> sync_job list \<Rightarrow> processed" where
  "processJob w job table =
     (let h = handler w job False table;
          jobStatus = (case outcome h of Inl e \<Rightarrow> FAILED | Inr n \<Rightarrow> COMPLETED);
          processedItems = (case outcome h of Inl e \<Rightarrow> 0 | Inr n \<Rightarrow> n);
          errorMessage = (case outcome h of Inl e \<Rightarrow> Some (errorMessage_of e) | Inr n \<Rightarrow> None);
          catch_thrown = (case outcome h of Inl e \<Rightarrow> catch_block w e | Inr n \<Rightarrow> None);
          is2FACase = (case errorMessage of None \<Rightarrow> False
                       | Some m \<Rightarrow> str_includes m ''IG_2FA_REQUIRED'')
      in
        if \<not> is2FACase then
          (case close (w_close_error w) (browser_after h) of
             (Some ce, b) \<Rightarrow>
               \<lparr>thrown = Some ce, close_called = True, update_called = False,
                browser_left = b, jobs_after = table_after h\<rparr>
           | (None, b) \<Rightarrow>
               (case updateJobStatus (w_job_update_error w) (w_now w) (job_id job) jobStatus
                       processedItems errorMessage (table_after h) of
                  (Some ue, t) \<Rightarrow>
                    \<lparr>thrown = Some ue, close_called = True, update_called = True,
                     browser_left = b, jobs_after = t\<rparr>
                | (None, t) \<Rightarrow>
                    \<lparr>thrown = catch_thrown, close_called = True, update_called = True,
                     browser_left = b, jobs_after = t\<rparr>))
        else
          (case updateJobStatus (w_job_update_error w) (w_now w) (job_id job) jobStatus
                  processedItems errorMessage (table_after h) of
             (Some ue, t) \<Rightarrow>
               \<lparr>thrown = Some ue, close_called = False, update_called = True,
                browser_left = browser_after h, jobs_after = t\<rparr>
           | (None, t) \<Rightarrow>
               \<lparr>thrown = catch_thrown, close_called = False, update_called = True,
                browser_left = browser_after h, jobs_after = t\<rparr>))"

text \<open>
  One turn of \<^verbatim>\<open>workerLoop\<close>: the claim, then the job if there is one.  The loop
  catches what either throws and goes on.  The result is the table after the claim and the
  outcome of the job.
\<close>

definition worker_turn :: "string option \<Rightarrow> string option \<Rightarrow> world \<Rightarrow> sync_job list
    \<Rightarrow> sync_job list \<times> processed option" where
  "worker_turn select_error update_error w table =
     (case getNextPendingJob select_error update_error (w_now w) table of
        (Inr (Some job), claimed) \<Rightarrow> (claimed, Some (processJob w job claimed))
      | (_, t) \<Rightarrow> (t, None))"

section \<open>The status of a job\<close>

text \<open>The row of a job in the table, found by its id.\<close>

definition job_row :: "sync_job list \<Rightarrow> string \<Rightarrow> sync_job option" where
  "job_row table i = find_first (\<lambda>j. job_id j = i) table"

text \<open>The terminal statuses.\<close>

definition terminal :: "job_status \<Rightarrow> bool" where
  "terminal s = (s = COMPLETED \<or> s = FAILED)"

text \<open>
  Between two tables: every job of the first is unchanged in the second, and every other
  job of the second is pending.
\<close>

definition kept_or_pending :: "sync_job list \<Rightarrow> sync_job list \<Rightarrow> bool" where
  "kept_or_pending t t' \<longleftrightarrow>
     (\<forall>i. case job_row t i of
            Some j \<Rightarrow> job_row t' i = Some j
          | None \<Rightarrow> (case job_row t' i of None \<Rightarrow> True | Some j \<Rightarrow> status j = PENDING))"

text \<open>
  The status that \<^verbatim>\<open>processJob\<close> passes to \<^verbatim>\<open>updateJobStatus\<close>: \<^verbatim>\<open>FAILED\<close>
  when the \<^verbatim>\<open>switch\<close> has thrown, \<^verbatim>\<open>COMPLETED\<close> otherwise.
\<close>

definition jobStatus_of :: "handled \<Rightarrow> job_status" where
  "jobStatus_of h = (case outcome h of Inl e \<Rightarrow> FAILED | Inr n \<Rightarrow> COMPLETED)"

text \<open>The update that \<^verbatim>\<open>updateJobStatus\<close> applies to the row of the job.\<close>

definition finish :: "job_status \<Rightarrow> int \<Rightarrow> nat \<Rightarrow> string option \<Rightarrow> sync_job \<Rightarrow> sync_job" where
  "finish st now n em j =
     j\<lparr>status := st, finished_at := Some now, processed_items := n, error_message := em\<rparr>"

text \<open>
  An example table with a completed and two pending jobs, and a world in which every
  collaborator succeeds.
\<close>

definition example_payload :: session_payload where
  "example_payload = \<lparr>cookies = [], user_agent = ''ua'', payload_timestamp = 0\<rparr>"

definition example_job :: "string \<Rightarrow> string \<Rightarrow> job_status \<Rightarrow> int \<Rightarrow> sync_job" where
  "example_job i ty st c =
     \<lparr>job_id = i, job_profile_id = ''p'', job_user_id = ''u'', job_type = ty, status = st,
      started_at = None, finished_at = None, processed_items = 0, error_message = None,
      metadata = Some \<lparr>md_username = None, md_password = None, md_two_fa_code = None\<rparr>,
      created_at = c\<rparr>"

definition example_table :: "sync_job list" where
  "example_table = [example_job ''j1'' ''SYNC_MEDIA'' COMPLETED 1,
     example_job ''j2'' ''DERIVE_METRICS'' PENDING 2,
     example_job ''j3'' ''SYNC_FOLLOWERS'' PENDING 3]"

definition quiet_world :: world where
  "quiet_world =
     \<lparr>w_login = \<lparr>lw_init = InitOk, lw_submit_error = None, lw_2fa_required = False,
                 lw_wait_error = None, lw_manual_completed = False, lw_code_error = None, lw_logged_in = True,
                 lw_error_text = None, lw_prompt_error = None,
                 lw_payload = Inr example_payload\<rparr>,
      w_init = InitOk, w_close_error = None, w_save_session = None,
      w_update_profile_state = (\<lambda>_. None), w_new_ids = [''n1'', ''n2'', ''n3'', ''n4''],
      w_session = Inr (Some example_payload), w_check_session = True, w_profile = True,
      w_scrape_profile = None, w_profile_update_error = False, w_scrape_followers = None,
      w_sync_followers = Inr 3, w_scrape_media = None, w_sync_media = Inr 2,
      w_derive_metrics = None, w_job_update_error = None, w_now = 100\<rparr>"

text \<open>The same world, except that the record store rejects the final update of the job.\<close>

definition rejecting_world :: world where
  "rejecting_world = quiet_world\<lparr>w_job_update_error := Some ''connection reset''\<rparr>"

text \<open>
  The message of a navigation timeout on the profile page of an account whose name
  contains the text \<open>IG_2FA_REQUIRED\<close>.
\<close>

definition timeout_message :: string where
  "timeout_message =
     ''page.goto: Timeout 30000ms exceeded. navigating to https://www.instagram.com/IG_2FA_REQUIRED/''"

subsection \<open>Rows of the table\<close>

lemma oldest_in: "oldest js = Some j \<Longrightarrow> j \<in> set js"
  by (induction js arbitrary: j) (auto split: option.splits if_splits)

lemma oldest_pending_in:
  "oldest_pending table = Some j \<Longrightarrow> j \<in> set table \<and> status j = PENDING"
  by (auto simp: oldest_pending_def dest: oldest_in)

lemma job_row_distinct:
  "distinct (map job_id table) \<Longrightarrow> j \<in> set table \<Longrightarrow> job_row table (job_id j) = Some j"
  unfolding job_row_def by (induction table) (auto simp: rev_image_eqI)

lemma job_row_update_same:
  "(\<And>j. job_id (f j) = job_id j) \<Longrightarrow>
   job_row (update_job i f table) i = map_option f (job_row table i)"
  unfolding job_row_def update_job_def by (induction table) auto

lemma job_row_update_other:
  "(\<And>j. job_id (f j) = job_id j) \<Longrightarrow> i' \<noteq> i \<Longrightarrow>
   job_row (update_job i f table) i' = job_row table i'"
  unfolding job_row_def update_job_def by (induction table) auto

lemma job_row_append:
  "job_row (t @ t') i = (case job_row t i of Some j \<Rightarrow> Some j | None \<Rightarrow> job_row t' i)"
  unfolding job_row_def by (induction t) auto

lemma job_row_None: "(job_row t i = None) = (i \<notin> job_id ` set t)"
  unfolding job_row_def by (induction t) auto

lemma job_row_insert:
  "job_row (insert_job j t) i =
     (case job_row t i of Some x \<Rightarrow> Some x | None \<Rightarrow> if job_id j = i then Some j else None)"
proof (cases "job_id j \<in> job_id ` set t")
  case True
  then have "job_row t (job_id j) \<noteq> None" by (simp add: job_row_None)
  with True show ?thesis by (auto simp: insert_job_def split: option.splits)
next
  case False
  have "job_row [j] i = (if job_id j = i then Some j else None)" by (simp add: job_row_def)
  with False show ?thesis
    by (cases "job_row t i") (simp_all add: insert_job_def job_row_append)
qed

lemma kept_refl: "kept_or_pending t t"
  by (auto simp: kept_or_pending_def split: option.splits)

lemma kept_insert:
  assumes "status j = PENDING" "kept_or_pending t t'"
  shows "kept_or_pending t (insert_job j t')"
  unfolding kept_or_pending_def
proof
  fix i
  from assms(2) have k: "case job_row t i of
            Some j \<Rightarrow> job_row t' i = Some j
          | None \<Rightarrow> (case job_row t' i of None \<Rightarrow> True | Some j \<Rightarrow> status j = PENDING)"
    unfolding kept_or_pending_def by blast
  show "case job_row t i of
            Some x \<Rightarrow> job_row (insert_job j t') i = Some x
          | None \<Rightarrow> (case job_row (insert_job j t') i of None \<Rightarrow> True
                     | Some x \<Rightarrow> status x = PENDING)"
  proof (cases "job_row t i")
    case None
    with k assms(1) show ?thesis
      by (cases "job_row t' i") (simp_all add: job_row_insert)
  next
    case (Some x)
    with k show ?thesis by (simp add: job_row_insert)
  qed
qed

lemma kept_fold:
  "kept_or_pending t t' \<Longrightarrow>
   kept_or_pending t (fold (\<lambda>entry t. insert_job (new_job job now entry) t) es t')"
proof (induction es arbitrary: t')
  case Nil
  then show ?case by simp
next
  case (Cons e es)
  have "status (new_job job now e) = PENDING" by (cases e) (simp add: new_job_def)
  from kept_insert[OF this Cons.prems] show ?case by (simp add: Cons.IH)
qed

subsection \<open>The handlers and the table\<close>

lemma throws_sel [simp]:
  "outcome (throws e b t) = Inl e" "browser_after (throws e b t) = b"
  "table_after (throws e b t) = t"
  by (simp_all add: throws_def)

lemma handle_login_table:
  "kept_or_pending table (table_after (handle_login w job browser table))"
proof (cases "metadata job")
  case None
  then show ?thesis by (simp add: handle_login_def kept_refl)
next
  case (Some md)
  let ?l = "login (w_login w) (w_close_error w) (md_two_fa_code md) browser"
  obtain r b where l: "?l = (r, b)" by (cases ?l)
  have e: "kept_or_pending table (enqueue_follow_ups w job table)"
    unfolding enqueue_follow_ups_def by (rule kept_fold[OF kept_refl])
  show ?thesis
    unfolding handle_login_def Some option.case l
    by (cases r; cases "w_save_session w"; cases "w_update_profile_state w ''CONNECTED''")
      (simp_all add: kept_refl e)
qed

lemma open_session_cases:
  obtains e b where "open_session w what browser = (Some e, b)"
  | b where "open_session w what browser = (None, b)"
  by (cases "open_session w what browser") (metis option.exhaust)

lemma handler_table:
  "kept_or_pending table (table_after (handler w job browser table))"
proof -
  have r: "table_after (handle_reconnect w job browser table) = table"
    by (simp add: handle_reconnect_def initBrowser_def
        split: sum.splits option.splits init_outcome.splits)
  have p: "table_after (handle_sync_profile w job browser table) = table"
    by (rule open_session_cases[of w "''profile''" browser])
      (simp_all add: handle_sync_profile_def split: option.splits)
  have f: "table_after (handle_sync_followers w job browser table) = table"
    by (rule open_session_cases[of w "''followers''" browser])
      (simp_all add: handle_sync_followers_def split: option.splits sum.splits)
  have m: "table_after (handle_sync_media w job browser table) = table"
    by (rule open_session_cases[of w "''media''" browser])
      (simp_all add: handle_sync_media_def split: option.splits sum.splits)
  have d: "table_after (handle_derive_metrics w job browser table) = table"
    by (simp add: handle_derive_metrics_def split: option.splits)
  show ?thesis by (simp add: handler_def handle_login_table r p f m d kept_refl)
qed

subsection \<open>The transitions\<close>

lemma updateJobStatus_cases:
  "updateJobStatus ue now i st n em t =
     (case ue of
        Some msg \<Rightarrow> (Some (AppError DATABASE_ERROR
                   (''Failed to update job status to '' @ status_name st @ '': '' @ msg)), t)
      | None \<Rightarrow> (None, update_job i (finish st now n em) t))"
  by (simp add: updateJobStatus_def finish_def[abs_def] split: option.splits)

lemma close_cases:
  "close ce b = (if b \<and> ce \<noteq> None then (Some (Error (the ce)), True) else (None, False))"
  by (auto simp: close_def split: option.splits)

lemma processJob_jobs_after:
  "\<exists>st n em. terminal st \<and>
     (jobs_after (processJob w job t) = table_after (handler w job False t) \<or>
      jobs_after (processJob w job t) =
        update_job (job_id job) (finish st (w_now w) n em) (table_after (handler w job False t)))"
proof -
  let ?h = "handler w job False t"
  show ?thesis
  proof (cases "outcome ?h")
    case (Inl e)
    then show ?thesis
      by (intro exI[of _ FAILED] exI[of _ 0] exI[of _ "Some (errorMessage_of e)"])
        (simp add: processJob_def Let_def terminal_def updateJobStatus_cases close_cases
          split: option.splits)
  next
    case (Inr n)
    then show ?thesis
      by (intro exI[of _ COMPLETED] exI[of _ n] exI[of _ None])
        (simp add: processJob_def Let_def terminal_def updateJobStatus_cases close_cases
          split: option.splits)
  qed
qed

lemma processJob_written:
  assumes "update_called (processJob w job t)" "w_job_update_error w = None"
  shows "\<exists>n em. jobs_after (processJob w job t) =
      update_job (job_id job) (finish (jobStatus_of (handler w job False t)) (w_now w) n em)
        (table_after (handler w job False t))"
proof -
  let ?h = "handler w job False t"
  show ?thesis
  proof (cases "outcome ?h")
    case (Inl e)
    with assms show ?thesis
      by (intro exI[of _ 0] exI[of _ "Some (errorMessage_of e)"])
        (auto simp: processJob_def Let_def jobStatus_of_def updateJobStatus_cases close_cases
          split: if_splits)
  next
    case (Inr n)
    with assms show ?thesis
      by (intro exI[of _ n] exI[of _ None])
        (auto simp: processJob_def Let_def jobStatus_of_def updateJobStatus_cases close_cases
          split: if_splits)
  qed
qed

lemma processJob_rejected:
  assumes "update_called (processJob w job t)" "w_job_update_error w = Some msg"
  shows "thrown (processJob w job t) =
      Some (AppError DATABASE_ERROR
              (''Failed to update job status to ''
                 @ status_name (jobStatus_of (handler w job False t)) @ '': '' @ msg))"
    and "jobs_after (processJob w job t) = table_after (handler w job False t)"
proof -
  let ?h = "handler w job False t"
  show "thrown (processJob w job t) =
      Some (AppError DATABASE_ERROR
              (''Failed to update job status to ''
                 @ status_name (jobStatus_of (handler w job False t)) @ '': '' @ msg))"
    using assms
    by (cases "outcome ?h")
      (auto simp: processJob_def Let_def jobStatus_of_def updateJobStatus_cases close_cases
        split: if_splits)
  show "jobs_after (processJob w job t) = table_after (handler w job False t)"
    using assms
    by (cases "outcome ?h")
      (auto simp: processJob_def Let_def jobStatus_of_def updateJobStatus_cases close_cases
        split: if_splits)
qed

text \<open>
  The update of the job is called unless \<^verbatim>\<open>close\<close> has thrown; then \<^verbatim>\<open>processJob\<close>
  throws the error of \<^verbatim>\<open>close\<close> and the table is as the \<^verbatim>\<open>switch\<close> left it.
\<close>

lemma processJob_update_called:
  "w_close_error w = None \<Longrightarrow> update_called (processJob w job t)"
  by (simp add: processJob_def Let_def updateJobStatus_cases close_cases split: option.splits)

lemma processJob_close_throws:
  assumes "\<not> update_called (processJob w job t)"
  shows "\<exists>m. w_close_error w = Some m \<and> thrown (processJob w job t) = Some (Error m)"
    and "jobs_after (processJob w job t) = table_after (handler w job False t)"
  using assms
  by (auto simp: processJob_def Let_def updateJobStatus_cases close_cases
      split: option.splits if_splits)

lemma getNextPendingJob_claimed:
  assumes "getNextPendingJob se ue now table = (Inr (Some job), claimed)"
  shows "oldest_pending table = Some job"
    "claimed = update_job (job_id job) (\<lambda>j. j\<lparr>status := RUNNING, started_at := Some now\<rparr>) table"
  using assms by (auto simp: getNextPendingJob_def split: option.splits)

lemma getNextPendingJob_unclaimed:
  assumes "getNextPendingJob se ue now table = (r, t)" "\<forall>job. r \<noteq> Inr (Some job)"
  shows "t = table"
  using assms by (auto simp: getNextPendingJob_def split: option.splits)

lemma finish_id [simp]: "job_id (finish st now n em j) = job_id j"
  by (simp add: finish_def)

text \<open>
  Claim C1, as amended.  The ids of the table are distinct and the claim returns a job.
  Then the job was \<^verbatim>\<open>PENDING\<close>; after the claim its row is \<^verbatim>\<open>RUNNING\<close> with the
  start time, and every other row is as before.  After \<^verbatim>\<open>processJob\<close> the row of the
  job is \<^verbatim>\<open>RUNNING\<close>, \<^verbatim>\<open>COMPLETED\<close> or \<^verbatim>\<open>FAILED\<close>.  When the final update of the job
  is made and the record store accepts it, the row is \<^verbatim>\<open>COMPLETED\<close> if the handler
  returned and \<^verbatim>\<open>FAILED\<close> if it threw, with the finish time.  When the record store
  rejects the final update, \<^verbatim>\<open>processJob\<close> throws the \<^verbatim>\<open>DATABASE_ERROR\<close> and the row
  is as the claim left it, \<^verbatim>\<open>RUNNING\<close>.  Every other job of the table is unchanged, so
  no job leaves a terminal status and none skips \<^verbatim>\<open>RUNNING\<close>, and every job that was
  not in the table is \<^verbatim>\<open>PENDING\<close>.
\<close>

theorem job_status_transitions:
  assumes d: "distinct (map job_id table)"
    and g: "getNextPendingJob select_error update_error (w_now w) table = (Inr (Some job), claimed)"
  shows "job_row table (job_id job) = Some job \<and> status job = PENDING
    \<and> map_option status (job_row claimed (job_id job)) = Some RUNNING
    \<and> map_option started_at (job_row claimed (job_id job)) = Some (Some (w_now w))
    \<and> (\<forall>i. i \<noteq> job_id job \<longrightarrow> job_row claimed i = job_row table i)
    \<and> map_option status (job_row (jobs_after (processJob w job claimed)) (job_id job))
        \<in> {Some RUNNING, Some COMPLETED, Some FAILED}
    \<and> (update_called (processJob w job claimed) \<and> w_job_update_error w = None \<longrightarrow>
        (\<exists>j'. job_row (jobs_after (processJob w job claimed)) (job_id job) = Some j'
           \<and> status j' = jobStatus_of (handler w job False claimed)
           \<and> terminal (status j') \<and> finished_at j' = Some (w_now w)))
    \<and> (update_called (processJob w job claimed) \<and> w_job_update_error w = Some msg \<longrightarrow>
        thrown (processJob w job claimed) =
          Some (AppError DATABASE_ERROR
                  (''Failed to update job status to ''
                     @ status_name (jobStatus_of (handler w job False claimed)) @ '': '' @ msg))
        \<and> job_row (jobs_after (processJob w job claimed)) (job_id job) =
            job_row claimed (job_id job)
        \<and> map_option status (job_row (jobs_after (processJob w job claimed)) (job_id job)) =
            Some RUNNING)
    \<and> (\<forall>i. i \<noteq> job_id job \<longrightarrow>
         (case job_row table i of
            Some j \<Rightarrow> job_row (jobs_after (processJob w job claimed)) i = Some j
          | None \<Rightarrow>
              (case job_row (jobs_after (processJob w job claimed)) i of
                 None \<Rightarrow> True
               | Some j \<Rightarrow> status j = PENDING)))"
proof -
  let ?run = "\<lambda>j. j\<lparr>status := RUNNING, started_at := Some (w_now w)\<rparr>"
  let ?h = "handler w job False claimed"
  let ?after = "jobs_after (processJob w job claimed)"
  note c = getNextPendingJob_claimed[OF g]
  from c(1) have jin: "job \<in> set table" and jp: "status job = PENDING"
    using oldest_pending_in by blast+
  have row: "job_row table (job_id job) = Some job" by (rule job_row_distinct[OF d jin])
  have crow: "job_row claimed (job_id job) = Some (?run job)"
    unfolding c(2) by (simp add: job_row_update_same row)
  have cother: "\<forall>i. i \<noteq> job_id job \<longrightarrow> job_row claimed i = job_row table i"
    unfolding c(2) by (simp add: job_row_update_other)
  have kept: "kept_or_pending claimed (table_after ?h)" by (rule handler_table)
  have k: "case job_row claimed i of
        Some j \<Rightarrow> job_row (table_after ?h) i = Some j
      | None \<Rightarrow> (case job_row (table_after ?h) i of None \<Rightarrow> True
                 | Some j \<Rightarrow> status j = PENDING)" for i
    using kept unfolding kept_or_pending_def by blast
  have hrow: "job_row (table_after ?h) (job_id job) = Some (?run job)"
    using k[of "job_id job"] crow by simp
  have hother: "case job_row table i of
         Some j \<Rightarrow> job_row (table_after ?h) i = Some j
       | None \<Rightarrow> (case job_row (table_after ?h) i of None \<Rightarrow> True
                  | Some j \<Rightarrow> status j = PENDING)" if "i \<noteq> job_id job" for i
    using k[of i] cother that by simp
  obtain st n em where st: "terminal st"
    and after: "?after = table_after ?h \<or>
      ?after = update_job (job_id job) (finish st (w_now w) n em) (table_after ?h)"
    using processJob_jobs_after by blast
  have arow: "job_row ?after (job_id job) = Some (?run job) \<or>
      job_row ?after (job_id job) = Some (finish st (w_now w) n em (?run job))"
    using after hrow by (auto simp: job_row_update_same)
  have s5: "map_option status (job_row ?after (job_id job))
        \<in> {Some RUNNING, Some COMPLETED, Some FAILED}"
    using arow st by (auto simp: finish_def terminal_def)
  have aother: "\<And>i. i \<noteq> job_id job \<Longrightarrow> job_row ?after i = job_row (table_after ?h) i"
    using after by (auto simp: job_row_update_other)
  have s7: "\<forall>i. i \<noteq> job_id job \<longrightarrow>
         (case job_row table i of
            Some j \<Rightarrow> job_row ?after i = Some j
          | None \<Rightarrow> (case job_row ?after i of None \<Rightarrow> True | Some j \<Rightarrow> status j = PENDING))"
  proof (intro allI impI)
    fix i assume ne: "i \<noteq> job_id job"
    show "case job_row table i of
            Some j \<Rightarrow> job_row ?after i = Some j
          | None \<Rightarrow> (case job_row ?after i of None \<Rightarrow> True | Some j \<Rightarrow> status j = PENDING)"
      unfolding aother[OF ne] by (rule hother[OF ne])
  qed
  have s6: "update_called (processJob w job claimed) \<and> w_job_update_error w = None \<longrightarrow>
        (\<exists>j'. job_row ?after (job_id job) = Some j'
           \<and> status j' = jobStatus_of ?h
           \<and> terminal (status j') \<and> finished_at j' = Some (w_now w))"
  proof
    assume "update_called (processJob w job claimed) \<and> w_job_update_error w = None"
    then obtain n' em' where
      "?after = update_job (job_id job) (finish (jobStatus_of ?h) (w_now w) n' em') (table_after ?h)"
      using processJob_written by blast
    moreover have "terminal (jobStatus_of ?h)"
      by (simp add: jobStatus_of_def terminal_def split: sum.splits)
    ultimately show "\<exists>j'. job_row ?after (job_id job) = Some j'
           \<and> status j' = jobStatus_of ?h
           \<and> terminal (status j') \<and> finished_at j' = Some (w_now w)"
      using hrow by (simp add: job_row_update_same finish_def)
  qed
  have s8: "update_called (processJob w job claimed) \<and> w_job_update_error w = Some msg \<longrightarrow>
        thrown (processJob w job claimed) =
          Some (AppError DATABASE_ERROR
                  (''Failed to update job status to ''
                     @ status_name (jobStatus_of ?h) @ '': '' @ msg))
        \<and> job_row ?after (job_id job) = job_row claimed (job_id job)
        \<and> map_option status (job_row ?after (job_id job)) = Some RUNNING"
  proof
    assume h: "update_called (processJob w job claimed) \<and> w_job_update_error w = Some msg"
    then have u: "update_called (processJob w job claimed)"
      and e: "w_job_update_error w = Some msg" by simp_all
    note r = processJob_rejected[OF u e]
    from r(2) hrow crow have "job_row ?after (job_id job) = job_row claimed (job_id job)"
      by simp
    moreover from this crow have "map_option status (job_row ?after (job_id job)) = Some RUNNING"
      by simp
    ultimately show "thrown (processJob w job claimed) =
          Some (AppError DATABASE_ERROR
                  (''Failed to update job status to ''
                     @ status_name (jobStatus_of ?h) @ '': '' @ msg))
        \<and> job_row ?after (job_id job) = job_row claimed (job_id job)
        \<and> map_option status (job_row ?after (job_id job)) = Some RUNNING"
      using r(1) by simp
  qed
  have s3: "map_option status (job_row claimed (job_id job)) = Some RUNNING"
    "map_option started_at (job_row claimed (job_id job)) = Some (Some (w_now w))"
    by (simp_all add: crow)
  show ?thesis
    by (intro conjI row jp s3 cother s5 s6 s8 s7)
qed

lemmas example_worker_defs = example_table_def example_job_def quiet_world_def
  example_payload_def

lemma example_claim:
  "getNextPendingJob None None 100 example_table =
     (Inr (Some (example_job ''j2'' ''DERIVE_METRICS'' PENDING 2)),
      [example_job ''j1'' ''SYNC_MEDIA'' COMPLETED 1,
       (example_job ''j2'' ''DERIVE_METRICS'' PENDING 2)\<lparr>status := RUNNING, started_at := Some 100\<rparr>,
       example_job ''j3'' ''SYNC_FOLLOWERS'' PENDING 3])"
  by (simp add: getNextPendingJob_def oldest_pending_def update_job_def example_table_def
      example_job_def)

lemmas handler_defs = handler_def handle_login_def handle_reconnect_def handle_sync_profile_def
  handle_sync_followers_def handle_sync_media_def handle_derive_metrics_def open_session_def
  initBrowser_def throws_def

lemmas processJob_defs = processJob_def Let_def close_def updateJobStatus_def update_job_def
  errorMessage_of_def catch_block_def

theorem job_status_transitions_witness:
  "distinct (map job_id example_table)
   \<and> getNextPendingJob None None (w_now quiet_world) example_table =
       (Inr (Some (example_job ''j2'' ''DERIVE_METRICS'' PENDING 2)),
        [example_job ''j1'' ''SYNC_MEDIA'' COMPLETED 1,
         (example_job ''j2'' ''DERIVE_METRICS'' PENDING 2)
           \<lparr>status := RUNNING, started_at := Some 100\<rparr>,
         example_job ''j3'' ''SYNC_FOLLOWERS'' PENDING 3])
   \<and> update_called (processJob quiet_world
        (example_job ''j2'' ''DERIVE_METRICS'' PENDING 2)
        [example_job ''j1'' ''SYNC_MEDIA'' COMPLETED 1,
         (example_job ''j2'' ''DERIVE_METRICS'' PENDING 2)
           \<lparr>status := RUNNING, started_at := Some 100\<rparr>,
         example_job ''j3'' ''SYNC_FOLLOWERS'' PENDING 3])
   \<and> w_job_update_error quiet_world = None
   \<and> (\<exists>j'. job_row (jobs_after (processJob quiet_world
            (example_job ''j2'' ''DERIVE_METRICS'' PENDING 2)
            [example_job ''j1'' ''SYNC_MEDIA'' COMPLETED 1,
             (example_job ''j2'' ''DERIVE_METRICS'' PENDING 2)
               \<lparr>status := RUNNING, started_at := Some 100\<rparr>,
             example_job ''j3'' ''SYNC_FOLLOWERS'' PENDING 3]))
          (job_id (example_job ''j2'' ''DERIVE_METRICS'' PENDING 2)) = Some j'
        \<and> status j' = COMPLETED \<and> finished_at j' = Some (w_now quiet_world))
   \<and> update_called (processJob rejecting_world
        (example_job ''j2'' ''DERIVE_METRICS'' PENDING 2)
        [example_job ''j1'' ''SYNC_MEDIA'' COMPLETED 1,
         (example_job ''j2'' ''DERIVE_METRICS'' PENDING 2)
           \<lparr>status := RUNNING, started_at := Some 100\<rparr>,
         example_job ''j3'' ''SYNC_FOLLOWERS'' PENDING 3])
   \<and> w_job_update_error rejecting_world = Some ''connection reset''
   \<and> thrown (processJob rejecting_world
        (example_job ''j2'' ''DERIVE_METRICS'' PENDING 2)
        [example_job ''j1'' ''SYNC_MEDIA'' COMPLETED 1,
         (example_job ''j2'' ''DERIVE_METRICS'' PENDING 2)
           \<lparr>status := RUNNING, started_at := Some 100\<rparr>,
         example_job ''j3'' ''SYNC_FOLLOWERS'' PENDING 3]) =
       Some (AppError DATABASE_ERROR ''Failed to update job status to COMPLETED: connection reset'')
   \<and> map_option status (job_row (jobs_after (processJob rejecting_world
            (example_job ''j2'' ''DERIVE_METRICS'' PENDING 2)
            [example_job ''j1'' ''SYNC_MEDIA'' COMPLETED 1,
             (example_job ''j2'' ''DERIVE_METRICS'' PENDING 2)
               \<lparr>status := RUNNING, started_at := Some 100\<rparr>,
             example_job ''j3'' ''SYNC_FOLLOWERS'' PENDING 3]))
          (job_id (example_job ''j2'' ''DERIVE_METRICS'' PENDING 2))) = Some RUNNING"
proof -
  let ?job = "example_job ''j2'' ''DERIVE_METRICS'' PENDING 2"
  let ?claimed = "[example_job ''j1'' ''SYNC_MEDIA'' COMPLETED 1,
         (example_job ''j2'' ''DERIVE_METRICS'' PENDING 2)
           \<lparr>status := RUNNING, started_at := Some 100\<rparr>,
         example_job ''j3'' ''SYNC_FOLLOWERS'' PENDING 3]"
  have d: "distinct (map job_id example_table)"
    by (simp add: example_table_def example_job_def)
  have n: "w_now quiet_world = 100" "w_close_error quiet_world = None"
    "w_job_update_error quiet_world = None"
    by (simp_all add: quiet_world_def)
  have n': "w_now rejecting_world = 100" "w_close_error rejecting_world = None"
    "w_job_update_error rejecting_world = Some ''connection reset''"
    by (simp_all add: rejecting_world_def quiet_world_def)
  have g: "getNextPendingJob None None (w_now quiet_world) example_table =
       (Inr (Some ?job), ?claimed)"
    unfolding n(1) by (rule example_claim)
  have g': "getNextPendingJob None None (w_now rejecting_world) example_table =
       (Inr (Some ?job), ?claimed)"
    unfolding n'(1) by (rule example_claim)
  have u: "update_called (processJob quiet_world ?job ?claimed)"
    by (rule processJob_update_called[OF n(2)])
  have u': "update_called (processJob rejecting_world ?job ?claimed)"
    by (rule processJob_update_called[OF n'(2)])
  have hq: "jobStatus_of (handler quiet_world ?job False ?claimed) = COMPLETED"
    by (simp add: jobStatus_of_def handler_defs example_job_def quiet_world_def)
  have hr: "jobStatus_of (handler rejecting_world ?job False ?claimed) = COMPLETED"
    by (simp add: jobStatus_of_def handler_defs example_job_def quiet_world_def
        rejecting_world_def)
  note t = job_status_transitions[OF d g]
  note written = t[THEN conjunct2, THEN conjunct2, THEN conjunct2, THEN conjunct2,
      THEN conjunct2, THEN conjunct2, THEN conjunct1, THEN mp, OF conjI[OF u n(3)]]
  from written have w: "\<exists>j'. job_row (jobs_after (processJob quiet_world ?job ?claimed))
          (job_id ?job) = Some j'
        \<and> status j' = COMPLETED \<and> finished_at j' = Some (w_now quiet_world)"
    unfolding hq by blast
  note t' = job_status_transitions[OF d g', where msg = "''connection reset''"]
  note rejected = t'[THEN conjunct2, THEN conjunct2, THEN conjunct2, THEN conjunct2,
      THEN conjunct2, THEN conjunct2, THEN conjunct2, THEN conjunct1, THEN mp,
      OF conjI[OF u' n'(3)]]
  from rejected have r1: "thrown (processJob rejecting_world ?job ?claimed) =
       Some (AppError DATABASE_ERROR ''Failed to update job status to COMPLETED: connection reset'')"
    unfolding hr by (simp add: status_name_def)
  from rejected have r2: "map_option status (job_row (jobs_after
      (processJob rejecting_world ?job ?claimed)) (job_id ?job)) = Some RUNNING"
    by blast
  show ?thesis by (intro conjI d g u n(3) w u' n'(3) r1 r2)
qed

text \<open>
  Claim C1 as stated fails: the handler of the claimed job returns, the record store
  rejects the final update, \<^verbatim>\<open>processJob\<close> throws the \<^verbatim>\<open>DATABASE_ERROR\<close> (which the
  loop catches) and the job stays \<^verbatim>\<open>RUNNING\<close>.
\<close>

theorem job_left_running_counterexample:
  "map_option thrown
     (snd (worker_turn None None (quiet_world\<lparr>w_job_update_error := Some ''connection reset''\<rparr>)
             example_table)) =
     Some (Some (AppError DATABASE_ERROR
                   ''Failed to update job status to COMPLETED: connection reset''))
   \<and> map_option (\<lambda>p. map_option status (job_row (jobs_after p) ''j2''))
       (snd (worker_turn None None (quiet_world\<lparr>w_job_update_error := Some ''connection reset''\<rparr>)
               example_table)) =
     Some (Some RUNNING)"
proof -
  have n: "w_now (quiet_world\<lparr>w_job_update_error := Some ''connection reset''\<rparr>) = 100"
    by (simp add: quiet_world_def)
  show ?thesis
    unfolding worker_turn_def n example_claim
    by (simp add: processJob_defs handler_defs example_job_def quiet_world_def job_row_def
        status_name_def)
qed

text \<open>
  Claim C5.  A \<^verbatim>\<open>SYNC_FOLLOWERS\<close> job opens the browser and the scraping throws a
  navigation timeout whose message contains the text \<open>IG_2FA_REQUIRED\<close>.  The error is
  no \<^verbatim>\<open>AppError\<close> and no second factor is pending, but the \<^verbatim>\<open>finally\<close> block
  tests the message with \<^verbatim>\<open>includes\<close>: \<^verbatim>\<open>close\<close> is not called and the browser stays
  open, while the job is reported \<^verbatim>\<open>FAILED\<close>.
\<close>

theorem browser_kept_on_other_failure:
  "close_called (processJob (quiet_world\<lparr>w_scrape_followers := Some (Error timeout_message)\<rparr>)
      (example_job ''j3'' ''SYNC_FOLLOWERS'' PENDING 3)
      [example_job ''j3'' ''SYNC_FOLLOWERS'' RUNNING 3]) = False
   \<and> browser_left (processJob (quiet_world\<lparr>w_scrape_followers := Some (Error timeout_message)\<rparr>)
      (example_job ''j3'' ''SYNC_FOLLOWERS'' PENDING 3)
      [example_job ''j3'' ''SYNC_FOLLOWERS'' RUNNING 3]) = True
   \<and> map (\<lambda>j. (job_id j, status j, error_message j))
       (jobs_after (processJob (quiet_world\<lparr>w_scrape_followers := Some (Error timeout_message)\<rparr>)
          (example_job ''j3'' ''SYNC_FOLLOWERS'' PENDING 3)
          [example_job ''j3'' ''SYNC_FOLLOWERS'' RUNNING 3])) =
     [(''j3'', FAILED, Some (''Internal Error: '' @ timeout_message))]"
  by (simp add: processJob_defs handler_defs example_job_def quiet_world_def
      timeout_message_def)

subsection \<open>The browser\<close>

lemma starts_with_append: "starts_with (t @ s) t"
  by (induction t) simp_all

lemma str_includes_prefix: "str_includes (t @ s) t"
proof (cases "t @ s")
  case Nil
  then show ?thesis by simp
next
  case (Cons a list)
  have "starts_with (t @ s) t" by (rule starts_with_append)
  then show ?thesis unfolding Cons by simp
qed

lemma login_2fa_keeps_browser:
  assumes "lw_init lw = InitOk" "login_try lw code = Some (AppError IG_2FA_REQUIRED m)"
  shows "login lw ce code b = (Inl (AppError IG_2FA_REQUIRED m), True)"
  using assms by (simp add: login_def initBrowser_def)

lemma login_2fa_timeout:
  assumes "lw_submit_error lw = None" "lw_2fa_required lw" "falsy code"
    "lw_wait_error lw = None" "\<not> lw_manual_completed lw"
  shows "login_try lw code =
    Some (AppError IG_2FA_REQUIRED ''2FA was not completed within 10 minutes.'')"
  using assms by (simp add: login_try_def)

text \<open>
  When the handler throws the \<^verbatim>\<open>AppError\<close> with the code \<^verbatim>\<open>IG_2FA_REQUIRED\<close>,
  \<^verbatim>\<open>close\<close> is not called, the browser is left as the handler left it, and the job is
  written \<^verbatim>\<open>FAILED\<close> with the code at the head of its message.
\<close>

lemma processJob_2fa:
  assumes "outcome (handler w job False t) = Inl (AppError IG_2FA_REQUIRED m)"
  shows "\<not> close_called (processJob w job t)"
    "browser_left (processJob w job t) = browser_after (handler w job False t)"
    "w_job_update_error w = None \<Longrightarrow>
     jobs_after (processJob w job t) =
       update_job (job_id job)
         (finish FAILED (w_now w) 0 (Some (IG_2FA_REQUIRED @ '': '' @ m)))
         (table_after (handler w job False t))"
proof -
  have i: "str_includes (IG_2FA_REQUIRED @ '': '' @ m) ''IG_2FA_REQUIRED''"
    using str_includes_prefix[of "''IG_2FA_REQUIRED''" "'': '' @ m"]
    by (simp add: IG_2FA_REQUIRED_def)
  show "\<not> close_called (processJob w job t)"
    "browser_left (processJob w job t) = browser_after (handler w job False t)"
    "w_job_update_error w = None \<Longrightarrow>
     jobs_after (processJob w job t) =
       update_job (job_id job)
         (finish FAILED (w_now w) 0 (Some (IG_2FA_REQUIRED @ '': '' @ m)))
         (table_after (handler w job False t))"
    using assms i
    by (simp_all add: processJob_def Let_def errorMessage_of_def updateJobStatus_cases
        split: option.splits)
qed

text \<open>
  When the message of the thrown error does not contain the text, and on success, the
  browser is closed.
\<close>

lemma processJob_releases:
  assumes "\<And>e. outcome (handler w job False t) = Inl e \<Longrightarrow>
      \<not> str_includes (errorMessage_of e) ''IG_2FA_REQUIRED''"
    and "w_close_error w = None"
  shows "close_called (processJob w job t) \<and> \<not> browser_left (processJob w job t)"
proof (cases "outcome (handler w job False t)")
  case (Inl e)
  with assms(1)[OF Inl] assms(2) show ?thesis
    by (simp add: processJob_def Let_def updateJobStatus_cases close_cases
        split: option.splits)
next
  case (Inr n)
  with assms(2) show ?thesis
    by (simp add: processJob_def Let_def updateJobStatus_cases close_cases
        split: option.splits)
qed

text \<open>
  A \<^verbatim>\<open>LOGIN\<close> job with credentials and no code, whose login meets the prompt of the
  second factor and sees no manual completion in time: \<^verbatim>\<open>close\<close> is not called, the
  browser stays open, and the job is written \<^verbatim>\<open>FAILED\<close> with the code
  \<^verbatim>\<open>IG_2FA_REQUIRED\<close>.
\<close>

lemma login_job_second_factor:
  assumes "job_type job = ''LOGIN''" "metadata job = Some md"
    and "\<not> falsy (md_username md)" "\<not> falsy (md_password md)"
    and "falsy (md_two_fa_code md)"
    and "lw_init (w_login w) = InitOk" "lw_submit_error (w_login w) = None"
    and "lw_2fa_required (w_login w)" "lw_wait_error (w_login w) = None"
    and "\<not> lw_manual_completed (w_login w)"
  shows "\<not> close_called (processJob w job t) \<and> browser_left (processJob w job t)
    \<and> (w_job_update_error w = None \<longrightarrow>
        jobs_after (processJob w job t) =
          update_job (job_id job)
            (finish FAILED (w_now w) 0
               (Some (IG_2FA_REQUIRED @ '': 2FA was not completed within 10 minutes.''))) t)"
proof -
  let ?e = "AppError IG_2FA_REQUIRED ''2FA was not completed within 10 minutes.''"
  have t: "login_try (w_login w) (md_two_fa_code md) = Some ?e"
    using assms by (intro login_2fa_timeout) simp_all
  have l: "login (w_login w) (w_close_error w) (md_two_fa_code md) False =
      (Inl ?e, True)"
    by (rule login_2fa_keeps_browser[OF assms(6) t])
  have h: "handler w job False t = throws ?e True t"
    using assms(1-4) by (simp add: handler_def handle_login_def l)
  then have o: "outcome (handler w job False t) = Inl ?e" by simp
  from processJob_2fa[OF o] h show ?thesis by simp
qed

section \<open>EncryptionService\<close>

text \<open>
  A \<^verbatim>\<open>Buffer\<close> is the list of its bytes; a byte is a \<^typ>\<open>char\<close>.
  \<^verbatim>\<open>buf.toString('hex')\<close> writes two lower-case digits per byte;
  \<^verbatim>\<open>Buffer.from(s, 'hex')\<close> reads pairs of digits and stops at the first pair that is
  not hexadecimal or at a single last character.
\<close>

definition hex_digit :: "nat \<Rightarrow> char" where
  "hex_digit n = ''0123456789abcdef'' ! n"

definition hex_value :: "char \<Rightarrow> nat option" where
  "hex_value c =
     (let n = of_char c :: nat in
      if 48 \<le> n \<and> n \<le> 57 then Some (n - 48)
      else if 97 \<le> n \<and> n \<le> 102 then Some (n - 87)
      else if 65 \<le> n \<and> n \<le> 70 then Some (n - 55)
      else None)"

definition to_hex :: "string \<Rightarrow> string" where
  "to_hex buf =
     concat (map (\<lambda>b. [hex_digit (of_char b div 16), hex_digit (of_char b mod 16)]) buf)"

fun from_hex :: "string \<Rightarrow> string" where
  "from_hex (a # b # rest) =
     (case (hex_value a, hex_value b) of
        (Some x, Some y) \<Rightarrow> char_of (16 * x + y) # from_hex rest
      | _ \<Rightarrow> [])"
| "from_hex _ = []"

definition ALGORITHM :: string where
  "ALGORITHM = ''aes-256-cbc''"

definition IV_LENGTH :: nat where
  "IV_LENGTH = 16"

text \<open>
  The cipher and the JSON codec are not code of the repository; they are parameters of
  the model.  \<open>cipher key iv text\<close> is what \<^verbatim>\<open>createCipheriv(ALGORITHM, key, iv)\<close>
  followed by \<^verbatim>\<open>update\<close> and \<^verbatim>\<open>final\<close> makes of the bytes of the text, and
  \<open>decipher\<close> the same for \<^verbatim>\<open>createDecipheriv\<close>; \<open>stringify\<close> and \<open>parse\<close> are
  \<^verbatim>\<open>JSON.stringify\<close> and \<^verbatim>\<open>JSON.parse\<close> on session payloads.  \<open>None\<close> is a thrown
  error.
\<close>

record runtime =
  cipher :: "string \<Rightarrow> string \<Rightarrow> string \<Rightarrow> string option"
  decipher :: "string \<Rightarrow> string \<Rightarrow> string \<Rightarrow> string option"
  stringify :: "session_payload \<Rightarrow> string"
  parse :: "string \<Rightarrow> session_payload option"

record encrypted_payload =
  iv :: string
  encryptedData :: string
  algorithm :: string

text \<open>The constructor: the key of the service, or the thrown error.\<close>

definition new_EncryptionService :: "string \<Rightarrow> js_error + string" where
  "new_EncryptionService encryptionKeyHex =
     (if length encryptionKeyHex \<noteq> 64
      then Inl (AppError INVALID_INPUT
                  ''Encryption key must be a 32-byte (64 hex characters) hex string.'')
      else Inr (from_hex encryptionKeyHex))"

text \<open>\<open>random_iv\<close> is the result of \<^verbatim>\<open>randomBytes(IV_LENGTH)\<close>.\<close>

definition encrypt :: "runtime \<Rightarrow> string \<Rightarrow> string \<Rightarrow> session_payload
    \<Rightarrow> js_error + encrypted_payload" where
  "encrypt rt encryptionKey random_iv payload =
     (case cipher rt encryptionKey random_iv (stringify rt payload) of
        None \<Rightarrow> Inl (AppError INTERNAL_SERVER_ERROR ''Failed to encrypt session payload.'')
      | Some encrypted \<Rightarrow>
          Inr \<lparr>iv = to_hex random_iv, encryptedData = to_hex encrypted,
               algorithm = ALGORITHM\<rparr>)"

definition decrypt_failed :: js_error where
  "decrypt_failed =
     AppError INTERNAL_SERVER_ERROR
       ''Failed to decrypt session payload. Key or payload may be corrupt.''"

definition decrypt :: "runtime \<Rightarrow> string \<Rightarrow> encrypted_payload \<Rightarrow> js_error + session_payload" where
  "decrypt rt encryptionKey encryptedPayload =
     (if algorithm encryptedPayload \<noteq> ALGORITHM then Inl decrypt_failed
      else
        (case decipher rt encryptionKey (from_hex (iv encryptedPayload))
                (from_hex (encryptedData encryptedPayload)) of
           None \<Rightarrow> Inl decrypt_failed
         | Some decrypted \<Rightarrow>
             (case parse rt decrypted of
                None \<Rightarrow> Inl decrypt_failed
              | Some payload \<Rightarrow> Inr payload)))"

text \<open>
  A stand-in runtime for examples: for a key of 32 and an initialisation vector of 16
  bytes the cipher reverses the text behind the vector and the decipher undoes it; the
  codec writes the user agent only.
\<close>

definition example_runtime :: runtime where
  "example_runtime =
     \<lparr>cipher = (\<lambda>k v t. if length k = 32 \<and> length v = 16 then Some (v @ rev t) else None),
      decipher = (\<lambda>k v c. if length k = 32 \<and> length v = 16 \<and> take 16 c = v
                  then Some (rev (drop 16 c)) else None),
      stringify = user_agent,
      parse = (\<lambda>s. Some \<lparr>cookies = [], user_agent = s, payload_timestamp = 0\<rparr>)\<rparr>"

definition example_key_hex :: string where
  "example_key_hex = ''000102030405060708090a0b0c0d0e0f101112131415161718191A1B1C1D1E1F''"

definition example_iv :: string where
  "example_iv = replicate 16 (CHR 0x5C)"

subsection \<open>The round trip\<close>

lemma hex_value_digit: "n < 16 \<Longrightarrow> hex_value (hex_digit n) = Some n"
proof -
  assume "n < 16"
  then have "n \<in> {0,1,2,3,4,5,6,7,8,9,10,11,12,13,14,15}" by simp presburger
  then show ?thesis
    by (auto simp: hex_value_def hex_digit_def Let_def)
qed

lemma byte_split: "char_of (16 * (of_char b div 16) + of_char b mod (16::nat)) = b"
  by simp

lemma from_hex_to_hex: "from_hex (to_hex buf) = buf"
proof (induction buf)
  case Nil
  then show ?case by (simp add: to_hex_def)
next
  case (Cons b buf)
  have d: "(of_char b :: nat) div 16 < 16"
    using nat_of_char_less_256[of b] by (simp add: less_mult_imp_div_less)
  have m: "(of_char b :: nat) mod 16 < 16" by simp
  have "to_hex (b # buf) =
      hex_digit (of_char b div 16) # hex_digit (of_char b mod 16) # to_hex buf"
    by (simp add: to_hex_def)
  with Cons show ?case
    by (simp add: hex_value_digit[OF d] hex_value_digit[OF m] byte_split del: of_char_mod_256)
qed

lemma length_from_hex:
  "\<forall>c\<in>set s. hex_value c \<noteq> None \<Longrightarrow> length (from_hex s) = length s div 2"
proof (induction s rule: from_hex.induct)
  case (1 a b rest)
  then show ?case by (auto split: option.splits)
qed simp_all

text \<open>
  Claim C2.  The cipher and the JSON codec of the runtime are parameters: the decipher
  undoes the cipher under the same key and initialisation vector, the cipher accepts a key
  of 32 and a vector of 16 bytes, and the payload survives \<^verbatim>\<open>JSON.parse\<close> of its
  \<^verbatim>\<open>JSON.stringify\<close>.  For a service constructed from a key of 64 hexadecimal digits
  and any random vector of 16 bytes, \<^verbatim>\<open>encrypt\<close> returns a payload with the configured
  algorithm and the vector in hexadecimal, and \<^verbatim>\<open>decrypt\<close> of it, with the same key,
  returns the session payload exactly.
\<close>

theorem decrypt_encrypt:
  assumes inverse: "\<forall>k v t c. cipher rt k v t = Some c \<longrightarrow> decipher rt k v c = Some t"
    and total: "\<forall>k v t. length k = 32 \<and> length v = IV_LENGTH \<longrightarrow> cipher rt k v t \<noteq> None"
    and json: "parse rt (stringify rt p) = Some p"
    and key: "new_EncryptionService encryptionKeyHex = Inr key"
    and hex: "\<forall>c\<in>set encryptionKeyHex. hex_value c \<noteq> None"
    and iv: "length random_iv = IV_LENGTH"
  shows "\<exists>e. encrypt rt key random_iv p = Inr e \<and> decrypt rt key e = Inr p
    \<and> algorithm e = ALGORITHM \<and> from_hex (iv e) = random_iv"
proof -
  from key have k: "key = from_hex encryptionKeyHex" "length encryptionKeyHex = 64"
    by (auto simp: new_EncryptionService_def split: if_splits)
  then have "length key = 32" using length_from_hex[OF hex] by simp
  with total iv obtain c where c: "cipher rt key random_iv (stringify rt p) = Some c"
    by (metis option.exhaust)
  with inverse have d: "decipher rt key random_iv c = Some (stringify rt p)" by blast
  let ?e = "\<lparr>iv = to_hex random_iv, encryptedData = to_hex c, algorithm = ALGORITHM\<rparr>"
  have e: "encrypt rt key random_iv p = Inr ?e" by (simp add: encrypt_def c)
  have "decrypt rt key ?e = Inr p"
    by (simp add: decrypt_def from_hex_to_hex d json)
  with e show ?thesis by (simp add: from_hex_to_hex)
qed

lemma example_cipher_inverse:
  "cipher example_runtime k v t = Some c \<Longrightarrow> decipher example_runtime k v c = Some t"
  by (auto simp: example_runtime_def split: if_splits)

lemma example_key:
  "new_EncryptionService example_key_hex = Inr (from_hex example_key_hex)"
  "\<forall>c\<in>set example_key_hex. hex_value c \<noteq> None"
  by (simp_all add: new_EncryptionService_def example_key_hex_def hex_value_def Let_def)

theorem decrypt_encrypt_witness:
  "new_EncryptionService example_key_hex = Inr (from_hex example_key_hex)
   \<and> length example_iv = IV_LENGTH
   \<and> parse example_runtime (stringify example_runtime example_payload) = Some example_payload
   \<and> (\<exists>e. encrypt example_runtime (from_hex example_key_hex) example_iv example_payload = Inr e
         \<and> decrypt example_runtime (from_hex example_key_hex) e = Inr example_payload
         \<and> algorithm e = ALGORITHM \<and> from_hex (iv e) = example_iv)"
proof -
  have inverse: "\<forall>k v t c. cipher example_runtime k v t = Some c \<longrightarrow>
      decipher example_runtime k v c = Some t"
    using example_cipher_inverse by blast
  have total: "\<forall>k v t. length k = 32 \<and> length v = IV_LENGTH \<longrightarrow>
      cipher example_runtime k v t \<noteq> None"
    by (simp add: example_runtime_def IV_LENGTH_def)
  have json: "parse example_runtime (stringify example_runtime example_payload) =
      Some example_payload"
    by (simp add: example_runtime_def example_payload_def)
  have iv: "length example_iv = IV_LENGTH" by (simp add: example_iv_def IV_LENGTH_def)
  note r = decrypt_encrypt[OF inverse total json example_key(1) example_key(2) iv]
  show ?thesis by (intro conjI example_key(1) iv json r)
qed

end
